theory Spec2Isabelle
  imports Complex_Main
begin

section \<open>Strings and arrays as the TypeScript code uses them\<close>

text \<open>
  JavaScript strings are modelled as \<open>string\<close>. The three string and array methods the
  modelled functions call are written out: \<open>s.startsWith(p)\<close>, \<open>s.includes(p)\<close> and
  \<open>xs.indexOf(x)\<close> (first position, \<open>-1\<close> when absent), with \<open>xs.findIndex(p)\<close>
  beside it.
\<close>

fun startsWith :: "string \<Rightarrow> string \<Rightarrow> bool" where
  "startsWith s [] = True"
| "startsWith [] (p # ps) = False"
| "startsWith (c # cs) (p # ps) = (c = p \<and> startsWith cs ps)"

fun includes_str :: "string \<Rightarrow> string \<Rightarrow> bool" where
  "includes_str [] p = (p = [])"
| "includes_str (c # cs) p = (startsWith (c # cs) p \<or> includes_str cs p)"

fun indexOf :: "'a list \<Rightarrow> 'a \<Rightarrow> int" where
  "indexOf [] x = - 1"
| "indexOf (y # ys) x =
     (if y = x then 0 else (let r = indexOf ys x in if r < 0 then - 1 else r + 1))"

fun findIndex :: "('a \<Rightarrow> bool) \<Rightarrow> 'a list \<Rightarrow> int" where
  "findIndex P [] = - 1"
| "findIndex P (x # xs) =
     (if P x then 0 else (let r = findIndex P xs in if r < 0 then - 1 else r + 1))"

section \<open>Piped client (src/services/piped.ts)\<close>

subsection \<open>Responses and the instance registry\<close>

text \<open>
  What \<open>pipedFetch\<close> reads of a \<open>Response\<close>: the status, the \<open>content-type\<close> header
  (\<open>None\<close> when \<open>headers.get\<close> returns \<open>null\<close>) and the body it hands to its caller.
  \<open>await fetch(...)\<close> either resolves to a response or rejects (network error, or the
  8 second abort), which the \<open>catch\<close> block of the loop handles.
\<close>

record response =
  status :: nat
  contentType :: "string option"
  payload :: string

datatype fetch_outcome = Rejected | Resolved response

text \<open>
  The module-level variables \<open>PIPED_INSTANCES\<close>, \<open>currentInstanceIndex\<close> and
  \<open>BROKEN_INSTANCES\<close> (a table from instance URL to the time it was marked).
\<close>

record piped_state =
  PIPED_INSTANCES :: "string list"
  currentInstanceIndex :: nat
  BROKEN_INSTANCES :: "string \<rightharpoonup> int"

definition BROKEN_TIMEOUT :: int where
  "BROKEN_TIMEOUT = 1000 * 60 * 5"

text \<open>
  The predicate of the \<open>filter\<close> in \<open>pipedFetch\<close> and of the \<open>some\<close> in \<open>isAvailable\<close>:
  \<open>t === undefined || now - t > BROKEN_TIMEOUT\<close>.
\<close>

definition notBroken :: "(string \<rightharpoonup> int) \<Rightarrow> int \<Rightarrow> string \<Rightarrow> bool" where
  "notBroken tbl now inst =
     (case tbl inst of None \<Rightarrow> True | Some t \<Rightarrow> now - t > BROKEN_TIMEOUT)"

definition available :: "piped_state \<Rightarrow> int \<Rightarrow> string list" where
  "available st now = filter (notBroken (BROKEN_INSTANCES st) now) (PIPED_INSTANCES st)"

definition isAvailable :: "piped_state \<Rightarrow> int \<Rightarrow> bool" where
  "isAvailable st now = list_ex (notBroken (BROKEN_INSTANCES st) now) (PIPED_INSTANCES st)"

text \<open>\<open>BROKEN_INSTANCES[instance] = now\<close>.\<close>

definition markBroken :: "piped_state \<Rightarrow> string \<Rightarrow> int \<Rightarrow> piped_state" where
  "markBroken st inst now = st\<lparr>BROKEN_INSTANCES := (BROKEN_INSTANCES st)(inst \<mapsto> now)\<rparr>"

text \<open>
  The start position: the cursor taken modulo the pool's length, looked up in the
  available list, \<open>0\<close> when it is not there. On an empty pool the source reads
  \<open>PIPED_INSTANCES[NaN]\<close>, which is \<open>undefined\<close> and is not in the list either.
\<close>

definition startIndex :: "piped_state \<Rightarrow> string list \<Rightarrow> nat" where
  "startIndex st avail =
     (if PIPED_INSTANCES st = [] then 0
      else (let nowStart = currentInstanceIndex st mod length (PIPED_INSTANCES st);
                orig = PIPED_INSTANCES st ! nowStart;
                idxInAvailable = indexOf avail orig
            in if idxInAvailable \<ge> 0 then nat idxInAvailable else 0))"

subsection \<open>The failover loop\<close>

definition isRedirect :: "response \<Rightarrow> bool" where
  "isRedirect r = (status r \<ge> 300 \<and> status r < 400)"

definition isJson :: "response \<Rightarrow> bool" where
  "isJson r = includes_str (case contentType r of None \<Rightarrow> [] | Some ct \<Rightarrow> ct) ''application/json''"

definition ok :: "response \<Rightarrow> bool" where
  "ok r = (status r \<ge> 200 \<and> status r \<le> 299)"

text \<open>
  The \<open>for\<close> loop of \<open>pipedFetch\<close>, from iteration \<open>i\<close>. \<open>fetch i url\<close> is the outcome of
  the request of iteration \<open>i\<close> (so the network may answer the same URL differently at
  another attempt); the URL is \<open>instance + endpoint\<close>, which the source wraps in the
  CORS proxy's query string. The last component of the result lists the URLs requested,
  in order. The function returns the response (\<open>None\<close> for \<open>null\<close>) and the updated
  module state.
\<close>

function pipedLoop ::
  "(nat \<Rightarrow> string \<Rightarrow> fetch_outcome) \<Rightarrow> int \<Rightarrow> string \<Rightarrow> string list \<Rightarrow> nat \<Rightarrow> nat \<Rightarrow>
     piped_state \<Rightarrow> string list \<Rightarrow> response option \<times> piped_state \<times> string list" where
  "pipedLoop fetch now endpoint avail start i st reqs =
     (let len = length avail in
      if i < len then
        (let idx = (start + i) mod len;
             instance = avail ! idx;
             url = instance @ endpoint
         in case fetch i url of
              Rejected \<Rightarrow>
                pipedLoop fetch now endpoint avail start (Suc i)
                  (markBroken st instance now) (reqs @ [url])
            | Resolved r \<Rightarrow>
                if isRedirect r then
                  pipedLoop fetch now endpoint avail start (Suc i)
                    (markBroken st instance now) (reqs @ [url])
                else if \<not> isJson r then
                  pipedLoop fetch now endpoint avail start (Suc i)
                    (markBroken st instance now) (reqs @ [url])
                else if ok r then
                  (let origIdx = indexOf (PIPED_INSTANCES st) instance
                   in (Some r,
                       (if origIdx \<ge> 0
                        then st\<lparr>currentInstanceIndex :=
                                  (nat origIdx + 1) mod length (PIPED_INSTANCES st)\<rparr>
                        else st),
                       reqs @ [url]))
                else
                  pipedLoop fetch now endpoint avail start (Suc i)
                    (markBroken st instance now) (reqs @ [url]))
      else (None, st\<lparr>currentInstanceIndex := (start + 1) mod len\<rparr>, reqs))"
  by pat_completeness auto
termination
  by (relation "measure (\<lambda>(fetch, now, endpoint, avail, start, i, st, reqs). length avail - i)")
     auto

declare pipedLoop.simps [simp del]

definition pipedFetch ::
  "(nat \<Rightarrow> string \<Rightarrow> fetch_outcome) \<Rightarrow> int \<Rightarrow> string \<Rightarrow> piped_state \<Rightarrow>
     response option \<times> piped_state \<times> string list" where
  "pipedFetch fetch now endpoint st =
     (let avail = available st now;
          start = startIndex st avail
      in if length avail = 0 then (None, st, [])
         else pipedLoop fetch now endpoint avail start 0 st [])"

subsection \<open>Vocabulary of the properties of the failover loop\<close>

text \<open>
  A request is answered acceptably when it resolves to a response with a 2xx status whose
  content type contains \<open>application/json\<close>. \<open>tried avail start k\<close> is the instance of
  iteration \<open>k\<close>, and \<open>rotation st now k\<close> the same for the available list and start
  position that \<open>pipedFetch\<close> computes from the module state at time \<open>now\<close>.
\<close>

definition acceptable :: "fetch_outcome \<Rightarrow> bool" where
  "acceptable out = (case out of Rejected \<Rightarrow> False | Resolved r \<Rightarrow> ok r \<and> isJson r)"

definition tried :: "string list \<Rightarrow> nat \<Rightarrow> nat \<Rightarrow> string" where
  "tried avail start k = avail ! ((start + k) mod length avail)"

definition rotation :: "piped_state \<Rightarrow> int \<Rightarrow> nat \<Rightarrow> string" where
  "rotation st now k = tried (available st now) (startIndex st (available st now)) k"

section \<open>Aggregator and normalizer (the api service)\<close>

subsection \<open>Values of type any\<close>

text \<open>
  Upstream payloads have type \<open>any\<close>. They are modelled as JSON values with
  JavaScript's truthiness, property access (\<open>undefined\<close> for a missing key and on a value
  that is not an object; the code only reads properties behind a truthiness test or an
  optional chain) and \<open>a || b\<close>. Numbers are integers here.
\<close>

datatype json =
    JUndefined | JNull | JBool bool | JNum int | JStr string
  | JArr "json list" | JObj "(string \<times> json) list"

fun truthy :: "json \<Rightarrow> bool" where
  "truthy JUndefined = False"
| "truthy JNull = False"
| "truthy (JBool b) = b"
| "truthy (JNum n) = (n \<noteq> 0)"
| "truthy (JStr s) = (s \<noteq> [])"
| "truthy (JArr xs) = True"
| "truthy (JObj kvs) = True"

fun getProp :: "json \<Rightarrow> string \<Rightarrow> json" where
  "getProp (JObj kvs) k = (case map_of kvs k of None \<Rightarrow> JUndefined | Some v \<Rightarrow> v)"
| "getProp v k = JUndefined"

fun isArray :: "json \<Rightarrow> bool" where
  "isArray (JArr xs) = True"
| "isArray v = False"

fun elements :: "json \<Rightarrow> json list" where
  "elements (JArr xs) = xs"
| "elements v = []"

definition or_js :: "json \<Rightarrow> json \<Rightarrow> json" where
  "or_js a b = (if truthy a then a else b)"

subsection \<open>Songs and the aggregate search\<close>

text \<open>
  The \<open>Song\<close> record. Its declaration (types.ts) is not among the sources; the fields are
  those the clients write when they build a song. \<open>id\<close> is written \<open>id'\<close>, and
  \<open>isValidId\<close> is optional (the Piped client does not set it). The clients fill \<open>name\<close>
  and \<open>artist\<close> with \<open>item.title || '...'\<close> and \<open>item.uploader || '...'\<close>, copied
  unconverted from the upstream payload, so the two fields hold whatever truthy value
  the upstream sent: they are JSON values here, a \<open>JStr\<close> when the upstream kept to the
  declared type. The stream URL a successful \<open>playSong\<close> writes into its copy of the song
  is not modelled: nothing below reads it.
\<close>

record song =
  id' :: string
  name :: json
  artist :: json
  album :: string
  pic :: string
  source :: string
  duration :: nat
  isValidId :: "bool option"

text \<open>
  \<open>searchAggregate\<close>. Each of the two searches either yields a list or rejects
  (\<open>None\<close>); \<open>.catch(() => [])\<close> turns a rejection into the empty list, so \<open>Promise.all\<close>
  cannot reject. \<open>uniqueMap\<close> is a JavaScript \<open>Map\<close>, which iterates in insertion order:
  an association list that grows at its end. \<open>String.prototype.toLowerCase\<close> is a
  parameter, so that the properties hold whatever it does to a string; on a value that
  is not a string, \<open>v.toLowerCase()\<close> throws a \<open>TypeError\<close> (\<open>None\<close>). A throw inside
  \<open>forEach\<close> abandons the merge and lands in the \<open>catch\<close> branch, which returns the
  promise of a second \<open>youtube.searchAudio\<close> call as it is: \<open>youtubeAgain\<close> is the outcome
  of that call. The result is \<open>None\<close> when the returned promise rejects.
\<close>

definition toLowerCaseOf :: "(string \<Rightarrow> string) \<Rightarrow> json \<Rightarrow> string option" where
  "toLowerCaseOf toLowerCase v = (case v of JStr s \<Rightarrow> Some (toLowerCase s) | _ \<Rightarrow> None)"

definition songKey :: "(string \<Rightarrow> string) \<Rightarrow> song \<Rightarrow> string option" where
  "songKey toLowerCase s =
     (case toLowerCaseOf toLowerCase (name s) of
        None \<Rightarrow> None
      | Some n \<Rightarrow>
          (case toLowerCaseOf toLowerCase (artist s) of
             None \<Rightarrow> None
           | Some a \<Rightarrow> Some (n @ ''|'' @ a)))"

fun mergeUnique ::
  "(string \<Rightarrow> string) \<Rightarrow> (string \<times> song) list \<Rightarrow> song list \<Rightarrow> (string \<times> song) list option" where
  "mergeUnique toLowerCase uniqueMap [] = Some uniqueMap"
| "mergeUnique toLowerCase uniqueMap (s # combined) =
     (case songKey toLowerCase s of
        None \<Rightarrow> None
      | Some key \<Rightarrow>
          mergeUnique toLowerCase
            (if key \<in> set (map fst uniqueMap) then uniqueMap else uniqueMap @ [(key, s)])
            combined)"

definition searchAggregate ::
  "(string \<Rightarrow> string) \<Rightarrow> song list option \<Rightarrow> song list option \<Rightarrow> song list option \<Rightarrow>
     song list option" where
  "searchAggregate toLowerCase youtubeSearch pipedSearch youtubeAgain =
     (let youtubeResults = (case youtubeSearch of None \<Rightarrow> [] | Some ys \<Rightarrow> ys);
          pipedResults = (case pipedSearch of None \<Rightarrow> [] | Some ps \<Rightarrow> ps);
          combined = youtubeResults @ pipedResults
      in case mergeUnique toLowerCase [] combined of
           Some uniqueMap \<Rightarrow> Some (take 50 (map snd uniqueMap))
         | None \<Rightarrow> youtubeAgain)"

text \<open>
  For the statement of the properties: what a source contributed (nothing when it
  rejected), and deduplication as the specification words it, keeping of each key the
  first entry that carries it.
\<close>

definition results :: "song list option \<Rightarrow> song list" where
  "results r = (case r of None \<Rightarrow> [] | Some xs \<Rightarrow> xs)"

fun keepFirst :: "('a \<Rightarrow> 'k) \<Rightarrow> 'a list \<Rightarrow> 'a list" where
  "keepFirst f [] = []"
| "keepFirst f (x # xs) = x # filter (\<lambda>y. f y \<noteq> f x) (keepFirst f xs)"

text \<open>A song whose \<open>name\<close> and \<open>artist\<close> are strings, as the \<open>Song\<close> type declares.\<close>

fun isString :: "json \<Rightarrow> bool" where
  "isString (JStr s) = True"
| "isString v = False"

definition textual :: "song \<Rightarrow> bool" where
  "textual s = (isString (name s) \<and> isString (artist s))"

subsection \<open>The legacy parse path\<close>

text \<open>\<open>extractList\<close>, with its loop over \<open>priorityKeys\<close>.\<close>

definition priorityKeys :: "string list" where
  "priorityKeys = [''tracks'', ''songs'', ''list'', ''songlist'', ''data'', ''result'', ''results'']"

fun firstArrayUnder :: "json \<Rightarrow> string list \<Rightarrow> json list option" where
  "firstArrayUnder d [] = None"
| "firstArrayUnder d (key # keys) =
     (if truthy (getProp d key) \<and> isArray (getProp d key) then Some (elements (getProp d key))
      else firstArrayUnder d keys)"

definition extractList :: "json \<Rightarrow> json list" where
  "extractList d =
     (if \<not> truthy d then []
      else if isArray d then elements d
      else case firstArrayUnder d priorityKeys of
        Some xs \<Rightarrow> xs
      | None \<Rightarrow>
          (case (if truthy (getProp d ''data'')
                 then (if isArray (getProp d ''data'') then Some (elements (getProp d ''data''))
                       else firstArrayUnder (getProp d ''data'') priorityKeys)
                 else None) of
             Some xs \<Rightarrow> xs
           | None \<Rightarrow> if truthy (getProp d ''id'') \<and> truthy (getProp d ''name'') then [d] else []))"

text \<open>
  \<open>tuneHubFetch\<close> for the one endpoint the modelled code posts to, \<open>/v1/parse\<close>. The
  backend is a function from the request body (\<open>platform\<close>, \<open>ids\<close>, \<open>quality\<close>) to what
  \<open>fetch\<close> does: reject, or resolve to a response whose body may or may not parse as JSON
  (\<open>th_json = None\<close> when \<open>response.json()\<close> throws). The stored API base and key are
  part of that function. \<open>null\<close> is \<open>JNull\<close>.
\<close>

record tunehub_response =
  th_status :: nat
  th_contentType :: "string option"
  th_json :: "json option"

datatype tunehub_outcome = TuneHubRejected | TuneHubResolved tunehub_response

record parse_request =
  req_platform :: string
  req_ids :: string
  req_quality :: string

definition tuneHubFetch :: "(parse_request \<Rightarrow> tunehub_outcome) \<Rightarrow> parse_request \<Rightarrow> json" where
  "tuneHubFetch backend req =
     (case backend req of
        TuneHubRejected \<Rightarrow> JNull
      | TuneHubResolved response \<Rightarrow>
          if (case th_contentType response of None \<Rightarrow> False
              | Some ct \<Rightarrow> ct \<noteq> [] \<and> includes_str ct ''text/html'') then JNull
          else if th_status response = 401 then JNull
          else if \<not> (th_status response \<ge> 200 \<and> th_status response \<le> 299) then JNull
          else (case th_json response of None \<Rightarrow> JNull | Some v \<Rightarrow> v))"

text \<open>
  \<open>parseSongs\<close> returns its value (\<open>None\<close> for \<open>null\<close>) and the requests it sent to the
  backend.
\<close>

definition parseSongs ::
  "(parse_request \<Rightarrow> tunehub_outcome) \<Rightarrow> string \<Rightarrow> string \<Rightarrow> string \<Rightarrow>
     json list option \<times> parse_request list" where
  "parseSongs backend ids platform quality =
     (if ids = [] \<or> platform = [] then (None, [])
      else if startsWith ids ''temp_'' then (None, [])
      else (let req = \<lparr>req_platform = platform, req_ids = ids, req_quality = quality\<rparr>;
                res = tuneHubFetch backend req
            in if \<not> truthy res \<or> \<not> truthy (getProp res ''data'') then (None, [req])
               else (Some (extractList (getProp res ''data'')), [req])))"

text \<open>\<open>data?.[0]\<close> and \<open>item?.lrc || item?.lyric || item?.lyrics || ''\<close>.\<close>

definition firstItem :: "json list option \<Rightarrow> json" where
  "firstItem data = (case data of None \<Rightarrow> JUndefined | Some [] \<Rightarrow> JUndefined | Some (x # xs) \<Rightarrow> x)"

definition lyricsOf :: "json \<Rightarrow> json" where
  "lyricsOf item =
     or_js (or_js (or_js (getProp item ''lrc'') (getProp item ''lyric'')) (getProp item ''lyrics''))
       (JStr [])"

definition getLyrics ::
  "(parse_request \<Rightarrow> tunehub_outcome) \<Rightarrow> string \<Rightarrow> string \<Rightarrow> json \<times> parse_request list" where
  "getLyrics backend ident src =
     (if src = ''youtube'' then (JStr [], [])
      else (let (data, reqs) = parseSongs backend ident src ''320k'';
                lrc = lyricsOf (firstItem data)
            in if truthy lrc then (lrc, reqs) else (JStr [], reqs)))"

text \<open>
  \<open>normalizeSongs\<close>, the two lines that decide \<open>id\<close> and \<open>isValidId\<close> of a normalized
  song: \<open>found\<close> is what \<open>findId\<close> returned (\<open>None\<close> for \<open>undefined\<close>) and \<open>suffix\<close> stands
  for \<open>Math.random().toString(36).slice(2)\<close>.
\<close>

definition normalizeId :: "string option \<Rightarrow> string \<Rightarrow> string \<times> bool" where
  "normalizeId found suffix =
     ((case found of Some i \<Rightarrow> i | None \<Rightarrow> ''temp_'' @ suffix), found \<noteq> None)"

text \<open>
  \<open>parseSongFull\<close>. The two clients' info calls are functions of the video id that
  return the two fields read here; \<open>fixUrl\<close> and the picture that \<open>normalizeSongs\<close> finds
  are parameters as well, since they only shape the returned record. The function returns
  its value, the memo cache \<open>_parseCache\<close> and the upstream calls it made. \<open>now\<close> is the
  clock when the cache is read, \<open>later\<close> the clock when the entry is stored.
\<close>

record stream_info =
  audioUrl :: "string option"
  thumbnail :: string

record full_result =
  fr_url :: "string option"
  fr_lrc :: json
  fr_pic :: string

datatype upstream_call =
    PipedGetStreamInfo string | YoutubeGetAudioInfo string | TuneHubParse parse_request

record parse_env =
  tunehub :: "parse_request \<Rightarrow> tunehub_outcome"
  pipedGetStreamInfo :: "string \<Rightarrow> stream_info option"
  youtubeGetAudioInfo :: "string \<Rightarrow> stream_info option"
  fixUrl :: "json \<Rightarrow> string"
  normalizedPic :: "json list \<Rightarrow> string \<Rightarrow> string"

definition PARSE_CACHE_TTL :: int where
  "PARSE_CACHE_TTL = 5 * 60 * 1000"

definition legacyResult :: "parse_env \<Rightarrow> json list \<Rightarrow> string \<Rightarrow> full_result" where
  "legacyResult env data platform =
     (let item = firstItem (Some data);
          u = fixUrl env (getProp item ''url'')
      in \<lparr>fr_url = (if u = [] then None else Some u),
          fr_lrc = lyricsOf item,
          fr_pic = normalizedPic env data platform\<rparr>)"

definition parseSongFull ::
  "parse_env \<Rightarrow> int \<Rightarrow> int \<Rightarrow> (string \<rightharpoonup> json list \<times> int) \<Rightarrow> string \<Rightarrow> string \<Rightarrow> string \<Rightarrow>
     full_result option \<times> (string \<rightharpoonup> json list \<times> int) \<times> upstream_call list" where
  "parseSongFull env now later cache ident platform quality =
     (if ident = [] \<or> startsWith ident ''temp_'' then (None, cache, [])
      else if platform = ''piped'' then
        (case pipedGetStreamInfo env ident of
           None \<Rightarrow> (None, cache, [PipedGetStreamInfo ident])
         | Some pipedInfo \<Rightarrow>
             (Some \<lparr>fr_url = audioUrl pipedInfo, fr_lrc = JStr [], fr_pic = thumbnail pipedInfo\<rparr>,
              cache, [PipedGetStreamInfo ident]))
      else if platform = ''youtube'' then
        (case youtubeGetAudioInfo env ident of
           None \<Rightarrow> (None, cache, [YoutubeGetAudioInfo ident])
         | Some ytInfo \<Rightarrow>
             (Some \<lparr>fr_url = audioUrl ytInfo, fr_lrc = JStr [], fr_pic = thumbnail ytInfo\<rparr>,
              cache, [YoutubeGetAudioInfo ident]))
      else
        (let cacheKey = platform @ '':'' @ ident @ '':'' @ quality
         in case (case cache cacheKey of
                    None \<Rightarrow> None
                  | Some (data, timestamp) \<Rightarrow>
                      if now - timestamp < PARSE_CACHE_TTL then Some data else None) of
              Some data \<Rightarrow> (Some (legacyResult env data platform), cache, [])
            | None \<Rightarrow>
                (case parseSongs (tunehub env) ident platform quality of
                   (None, reqs) \<Rightarrow> (None, cache, map TuneHubParse reqs)
                 | (Some data, reqs) \<Rightarrow>
                     if length data = 0 then (None, cache, map TuneHubParse reqs)
                     else (Some (legacyResult env data platform),
                           cache(cacheKey \<mapsto> (data, later)),
                           map TuneHubParse reqs))))"

section \<open>Playback engine (PlayerProvider in src/App.tsx)\<close>

subsection \<open>Session state\<close>

text \<open>
  The session of the provider. \<open>currentSong\<close>, \<open>isPlaying\<close>, \<open>isLoading\<close>, \<open>queue\<close>,
  \<open>playMode\<close> and \<open>audioQuality\<close> are the React state variables, holding the value of
  the latest \<open>setState\<close>. \<open>currentSongRef\<close>, \<open>queueRef\<close>, \<open>playModeRef\<close> and
  \<open>audioQualityRef\<close> are the refs that mirror four of them; only the \<open>useEffect\<close> hooks
  write them, after a re-render. \<open>isPlayingRendered\<close> is the value of \<open>isPlaying\<close> in the
  last render, which is what the closure of \<open>togglePlay\<close> reads. \<open>retryCount\<close>, \<open>audio\<close>
  (\<open>audioRef.current\<close>, \<open>None\<close> before the element exists, with the four properties the
  code reads or writes), \<open>audioCtx\<close> (whether an \<open>AudioContext\<close> exists) and
  \<open>audioCtxConnected\<close> are refs the code writes directly. \<open>AudioQuality\<close> and \<open>PlayMode\<close>
  are declared in types.ts, which is not among the sources: their values are those the
  quality menu offers and those \<open>togglePlayMode\<close> cycles through. Media-session updates
  and the local-storage mirrors are left out.
\<close>

datatype audio_quality = Q128k | Q320k | Qflac | Qflac24bit

datatype play_mode = Sequence | Loop | Shuffle

record audio_element =
  src :: string
  currentTime :: real
  paused :: bool
  crossOrigin :: bool

record player =
  currentSong :: "song option"
  isPlaying :: bool
  isLoading :: bool
  queue :: "song list"
  playMode :: play_mode
  audioQuality :: audio_quality
  currentSongRef :: "song option"
  queueRef :: "song list"
  playModeRef :: play_mode
  audioQualityRef :: audio_quality
  isPlayingRendered :: bool
  retryCount :: nat
  audio :: "audio_element option"
  audioCtx :: bool
  audioCtxConnected :: bool

text \<open>
  A re-render followed by its effects: the four mirrors take the values of their state
  variables, and the functions of the new render see the new \<open>isPlaying\<close>.
\<close>

definition render :: "player \<Rightarrow> player" where
  "render st = st\<lparr>currentSongRef := currentSong st, queueRef := queue st,
                   playModeRef := playMode st, audioQualityRef := audioQuality st,
                   isPlayingRendered := isPlaying st\<rparr>"

text \<open>
  What the engine reads of the browser: the page URL an empty \<open>src\<close> may resolve to, the
  platform test behind \<open>isIOSRef\<close>, and whether an \<open>AudioContext\<close> and its nodes can be
  built without throwing.
\<close>

record browser =
  locationHref :: string
  isIOS :: bool
  audioContextWorks :: bool

text \<open>
  The event handlers and \<open>togglePlay\<close> do not run \<open>playSong\<close> themselves in this model:
  they return the calls they make through \<open>playSongRef\<close>, and \<open>runCalls\<close> below carries
  them out. \<open>PlaySongUndefined\<close> is \<open>playSong(q[n])\<close> for an index outside the queue. The
  stream resolution of \<open>playSong\<close> asks the two clients, each a function from the video
  id to \<open>getAudioUrl\<close>'s answer (\<open>None\<close> for \<open>null\<close>; neither client throws), and the
  calls made are recorded.
\<close>

datatype invocation = PlaySong song "audio_quality option" | PlaySongUndefined

datatype resolver_call = YoutubeGetAudioUrl string | PipedGetAudioUrl string

record resolvers =
  youtubeGetAudioUrl :: "string \<Rightarrow> string option"
  pipedGetAudioUrl :: "string \<Rightarrow> string option"

subsection \<open>The audio element\<close>

text \<open>
  \<open>audio.src && audio.src !== window.location.href\<close>, then \<open>createAudioElement\<close> (a new
  element without source replaces the old one, and an existing context is closed) and
  \<open>initAudioContext\<close>.
\<close>

definition hasSource :: "browser \<Rightarrow> audio_element \<Rightarrow> bool" where
  "hasSource env a = (src a \<noteq> [] \<and> src a \<noteq> locationHref env)"

definition createAudioElement :: "bool \<Rightarrow> player \<Rightarrow> player" where
  "createAudioElement withCors st =
     (let st1 = (if audioCtx st then st\<lparr>audioCtx := False, audioCtxConnected := False\<rparr> else st)
      in st1\<lparr>audio := Some \<lparr>src = [], currentTime = 0, paused = True, crossOrigin = withCors\<rparr>\<rparr>)"

definition initAudioContext :: "browser \<Rightarrow> player \<Rightarrow> player" where
  "initAudioContext env st =
     (if isIOS env then st
      else if audioCtx st \<or> audio st = None then st
      else if \<not> audioContextWorks env then st
      else st\<lparr>audioCtx := True, audioCtxConnected := True\<rparr>)"

subsection \<open>togglePlay and playSong\<close>

text \<open>
  \<open>audio.pause()\<close> and \<open>audio.play()\<close> set the element's \<open>paused\<close> flag; the promise of
  \<open>play()\<close> settles later and is not followed.
\<close>

definition togglePlay :: "browser \<Rightarrow> player \<Rightarrow> player \<times> invocation list" where
  "togglePlay env st =
     (case (audio st, currentSongRef st) of
        (Some a, Some c) \<Rightarrow>
          if \<not> hasSource env a then (st, [PlaySong c None])
          else if isPlayingRendered st
          then (st\<lparr>audio := Some (a\<lparr>paused := True\<rparr>), isPlaying := False\<rparr>, [])
          else (st\<lparr>audio := Some (a\<lparr>paused := False\<rparr>), isPlaying := True\<rparr>, [])
      | _ \<Rightarrow> (st, []))"

text \<open>
  \<open>playSong\<close> is asynchronous. \<open>playSong_begin\<close> is the part before the first \<open>await\<close>:
  it either finishes the call (no element, or the toggle branch) or leaves it waiting for
  the stream URL, with \<open>isSameSong\<close> and \<open>isDifferentQuality\<close> as computed on entry; it
  reads the refs and writes the state variables. \<open>resolveUrl\<close> is the resolution by
  source. \<open>playSong_resume\<close> is the part after the \<open>await\<close>: the stale-call guard, which
  compares the requested song with \<open>currentSongRef\<close>, then either the start of playback
  (\<open>load()\<close> resets the position and \<open>play()\<close> follows) or the branch for a missing URL.
  An exception in that part is caught and only clears \<open>isLoading\<close>.

  \<open>playSong\<close> composes the three for a call that no other event interleaves with.
  \<open>effectsRan\<close> says whether React re-rendered and ran the effects while the call
  awaited its URL. It has when the resolution took its time; a resolution that settles
  without leaving the running task (Piped with every instance marked broken, say, in a
  call made from a media event) is resumed before the mirrors are written.
\<close>

datatype begun = Finished player "invocation list" | AwaitingUrl player bool bool

definition playSong_begin ::
  "browser \<Rightarrow> player \<Rightarrow> song \<Rightarrow> audio_quality option \<Rightarrow> begun" where
  "playSong_begin env st sg forceQuality =
     (case audio st of
        None \<Rightarrow> Finished st []
      | Some a \<Rightarrow>
          (let isSameSong = (case currentSongRef st of None \<Rightarrow> False | Some c \<Rightarrow> id' c = id' sg);
               isDifferentQuality =
                 (case forceQuality of None \<Rightarrow> False | Some q \<Rightarrow> q \<noteq> audioQualityRef st)
           in if isSameSong \<and> \<not> isDifferentQuality \<and> forceQuality = None \<and> hasSource env a
              then (case togglePlay env st of (st', calls) \<Rightarrow> Finished st' calls)
              else AwaitingUrl
                     (st\<lparr>isLoading := True,
                         retryCount := (if forceQuality = None then 0 else retryCount st),
                         currentSong := Some sg,
                         queue := (if List.find (\<lambda>s. id' s = id' sg) (queue st) \<noteq> None
                                   then queue st else queue st @ [sg])\<rparr>)
                     isSameSong isDifferentQuality))"

definition usable :: "string option \<Rightarrow> string option" where
  "usable u = (case u of None \<Rightarrow> None | Some s \<Rightarrow> if s = [] then None else Some s)"

definition resolveUrl :: "resolvers \<Rightarrow> song \<Rightarrow> string option \<times> resolver_call list" where
  "resolveUrl net sg =
     (if source sg = ''piped'' then (pipedGetAudioUrl net (id' sg), [PipedGetAudioUrl (id' sg)])
      else (case usable (youtubeGetAudioUrl net (id' sg)) of
              Some u \<Rightarrow> (Some u, [YoutubeGetAudioUrl (id' sg)])
            | None \<Rightarrow> (pipedGetAudioUrl net (id' sg),
                        [YoutubeGetAudioUrl (id' sg), PipedGetAudioUrl (id' sg)])))"

definition playSong_resume ::
  "browser \<Rightarrow> player \<Rightarrow> song \<Rightarrow> bool \<Rightarrow> bool \<Rightarrow> string option \<Rightarrow> player" where
  "playSong_resume env st sg isSameSong isDifferentQuality fetchedUrl =
     (if (case currentSongRef st of None \<Rightarrow> True | Some c \<Rightarrow> id' c \<noteq> id' sg) then st
      else case usable fetchedUrl of
        None \<Rightarrow> st\<lparr>isLoading := False, isPlaying := False\<rparr>
      | Some u \<Rightarrow>
          (case audio st of
             None \<Rightarrow> st\<lparr>isLoading := False\<rparr>
           | Some a0 \<Rightarrow>
               (let resumeTime = (if isSameSong \<and> isDifferentQuality then currentTime a0 else 0);
                    st1 = (if \<not> audioCtxConnected st then createAudioElement True st else st);
                    st2 = initAudioContext env st1
                in case audio st2 of
                     None \<Rightarrow> st2\<lparr>isLoading := False\<rparr>
                   | Some a \<Rightarrow>
                       st2\<lparr>audio := Some (a\<lparr>src := u,
                                               currentTime := (if resumeTime > 0 then resumeTime else 0),
                                               paused := False\<rparr>),
                           isPlaying := True, isLoading := False\<rparr>)))"

definition playSong ::
  "browser \<Rightarrow> resolvers \<Rightarrow> bool \<Rightarrow> player \<Rightarrow> song \<Rightarrow> audio_quality option \<Rightarrow>
     player \<times> resolver_call list \<times> invocation list" where
  "playSong env net effectsRan st sg forceQuality =
     (case playSong_begin env st sg forceQuality of
        Finished st' calls \<Rightarrow> (st', [], calls)
      | AwaitingUrl st' isSameSong isDifferentQuality \<Rightarrow>
          (case resolveUrl net sg of
             (fetchedUrl, asked) \<Rightarrow>
               (playSong_resume env (if effectsRan then render st' else st') sg
                  isSameSong isDifferentQuality fetchedUrl,
                asked, [])))"

subsection \<open>Event handlers and queue advancement\<close>

text \<open>The \<open>error\<close> and \<open>loadedmetadata\<close> handlers of the audio element.\<close>

definition onError :: "player \<Rightarrow> player \<times> invocation list" where
  "onError st =
     (case currentSongRef st of
        Some c \<Rightarrow>
          if audioQualityRef st \<noteq> Q128k \<and> retryCount st = 0
          then (st\<lparr>retryCount := 1\<rparr>, [PlaySong c (Some Q128k)])
          else (st\<lparr>isLoading := False, isPlaying := False, retryCount := 0\<rparr>, [])
      | None \<Rightarrow> (st\<lparr>isLoading := False, isPlaying := False, retryCount := 0\<rparr>, []))"

definition onLoadedmetadata :: "player \<Rightarrow> player" where
  "onLoadedmetadata st = st\<lparr>isLoading := False, retryCount := 0\<rparr>"

text \<open>
  \<open>playNext\<close>, which reads the three refs. \<open>random k\<close> is the value of the \<open>k\<close>-th call
  of \<open>Math.random()\<close>, and \<open>randomIndex\<close> is \<open>Math.floor(Math.random() * q.length)\<close> on
  real numbers. The \<open>do ... while\<close> loop of shuffle mode draws until the index differs
  from the current one; it need not end, so it is a partial function and \<open>None\<close> stands
  for a loop that runs forever. The \<open>ended\<close> handler calls \<open>playNext(false)\<close>.
\<close>

definition randomIndex :: "(nat \<Rightarrow> real) \<Rightarrow> nat \<Rightarrow> nat \<Rightarrow> nat" where
  "randomIndex random len k = nat \<lfloor>random k * real len\<rfloor>"

partial_function (option) shuffleIndex :: "(nat \<Rightarrow> real) \<Rightarrow> nat \<Rightarrow> int \<Rightarrow> nat \<Rightarrow> nat option" where
  "shuffleIndex random len currentIndex k =
     (let nextIndex = randomIndex random len k
      in if len > 1 \<and> int nextIndex = currentIndex
         then shuffleIndex random len currentIndex (Suc k)
         else Some nextIndex)"

definition invoke :: "song list \<Rightarrow> nat \<Rightarrow> invocation" where
  "invoke q n = (if n < length q then PlaySong (q ! n) None else PlaySongUndefined)"

definition playNext :: "(nat \<Rightarrow> real) \<Rightarrow> bool \<Rightarrow> player \<Rightarrow> (player \<times> invocation list) option" where
  "playNext random force st =
     (let q = queueRef st; c = currentSongRef st; mode = playModeRef st
      in if length q = 0 then Some (st, [])
         else if \<not> force \<and> mode = Loop then
           (case audio st of
              None \<Rightarrow> Some (st, [])
            | Some a \<Rightarrow> Some (st\<lparr>audio := Some (a\<lparr>currentTime := 0, paused := False\<rparr>)\<rparr>, []))
         else
           (let currentIndex =
                  (case c of None \<Rightarrow> - 1 | Some cs \<Rightarrow> findIndex (\<lambda>s. id' s = id' cs) q)
            in if mode = Shuffle then
                 (case shuffleIndex random (length q) currentIndex 0 of
                    None \<Rightarrow> None
                  | Some nextIndex \<Rightarrow> Some (st, [invoke q nextIndex]))
               else Some (st, [invoke q (nat ((currentIndex + 1) mod int (length q)))])))"

definition onEnded :: "(nat \<Rightarrow> real) \<Rightarrow> player \<Rightarrow> (player \<times> invocation list) option" where
  "onEnded random st = playNext random False st"

text \<open>
  The calls a handler made, carried out in order: each is an uninterrupted \<open>playSong\<close>
  (\<open>playSong(undefined)\<close> throws on \<open>song.id\<close> and changes nothing). The result is the
  session, the resolver calls made and the calls \<open>playSong\<close> itself passed on.
  \<open>trackEnded\<close> is the \<open>ended\<close> event together with the \<open>playSong\<close> call it makes.
\<close>

fun runCalls ::
  "browser \<Rightarrow> resolvers \<Rightarrow> bool \<Rightarrow> player \<Rightarrow> invocation list \<Rightarrow>
     player \<times> resolver_call list \<times> invocation list" where
  "runCalls env net effectsRan st [] = (st, [], [])"
| "runCalls env net effectsRan st (PlaySongUndefined # calls) =
     runCalls env net effectsRan st calls"
| "runCalls env net effectsRan st (PlaySong sg forceQuality # calls) =
     (case playSong env net effectsRan st sg forceQuality of
        (st1, asked1, more1) \<Rightarrow>
          (case runCalls env net effectsRan st1 calls of
             (st2, asked2, more2) \<Rightarrow> (st2, asked1 @ asked2, more1 @ more2)))"

definition trackEnded ::
  "browser \<Rightarrow> resolvers \<Rightarrow> (nat \<Rightarrow> real) \<Rightarrow> bool \<Rightarrow> player \<Rightarrow>
     (player \<times> resolver_call list \<times> invocation list) option" where
  "trackEnded env net random effectsRan st =
     (case onEnded random st of
        None \<Rightarrow> None
      | Some (st1, calls) \<Rightarrow> Some (runCalls env net effectsRan st1 calls))"

section \<open>Example sessions\<close>

text \<open>Concrete songs, sessions and collaborators at which the properties are evaluated.\<close>

definition songA :: song where
  "songA = \<lparr>id' = ''A'', name = JStr ''Alpha'', artist = JStr ''X'', album = [], pic = [],
            source = ''youtube'', duration = 0, isValidId = Some True\<rparr>"

definition songB :: song where
  "songB = \<lparr>id' = ''B'', name = JStr ''Beta'', artist = JStr ''Y'', album = [], pic = [],
            source = ''youtube'', duration = 0, isValidId = Some True\<rparr>"

definition songC :: song where
  "songC = \<lparr>id' = ''C'', name = JStr ''Gamma'', artist = JStr ''Z'', album = [], pic = [],
            source = ''piped'', duration = 0, isValidId = None\<rparr>"

definition desktop :: browser where
  "desktop = \<lparr>locationHref = ''https://app/'', isIOS = False, audioContextWorks = True\<rparr>"

definition playingA :: player where
  "playingA = \<lparr>currentSong = Some songA, isPlaying = True, isLoading = False,
      queue = [songA], playMode = Sequence, audioQuality = Q320k,
      currentSongRef = Some songA, queueRef = [songA], playModeRef = Sequence,
      audioQualityRef = Q320k, isPlayingRendered = True, retryCount = 0,
      audio = Some \<lparr>src = ''https://cdn/a'', currentTime = 0, paused = False, crossOrigin = True\<rparr>,
      audioCtx = True, audioCtxConnected = True\<rparr>"

definition playingB :: "play_mode \<Rightarrow> player" where
  "playingB mode = \<lparr>currentSong = Some songB, isPlaying = True, isLoading = False,
      queue = [songA, songB, songC], playMode = mode, audioQuality = Q320k,
      currentSongRef = Some songB, queueRef = [songA, songB, songC], playModeRef = mode,
      audioQualityRef = Q320k, isPlayingRendered = True, retryCount = 0,
      audio = Some \<lparr>src = ''https://cdn/b'', currentTime = 200, paused = True, crossOrigin = True\<rparr>,
      audioCtx = True, audioCtxConnected = True\<rparr>"

definition noUrl :: resolvers where
  "noUrl = \<lparr>youtubeGetAudioUrl = (\<lambda>v. None), pipedGetAudioUrl = (\<lambda>v. None)\<rparr>"

definition cdnUrl :: resolvers where
  "cdnUrl = \<lparr>youtubeGetAudioUrl = (\<lambda>v. Some (''https://cdn/'' @ v)),
              pipedGetAudioUrl = (\<lambda>v. Some (''https://cdn/'' @ v))\<rparr>"

definition halfThenZero :: "nat \<Rightarrow> real" where
  "halfThenZero k = (if k = 0 then 1 / 2 else 0)"

definition lowerAX :: "string \<Rightarrow> string" where
  "lowerAX = map (\<lambda>ch. if ch = CHR ''A'' then CHR ''a'' else if ch = CHR ''X'' then CHR ''x'' else ch)"

definition songA_piped :: song where
  "songA_piped = \<lparr>id' = ''A2'', name = JStr ''alpha'', artist = JStr ''x'', album = [], pic = [],
            source = ''piped'', duration = 0, isValidId = None\<rparr>"

definition songNumericArtist :: song where
  "songNumericArtist = \<lparr>id' = ''N'', name = JStr ''Nu'', artist = JNum 7, album = [], pic = [],
            source = ''piped'', duration = 0, isValidId = None\<rparr>"

definition lyricBackend :: "parse_request \<Rightarrow> tunehub_outcome" where
  "lyricBackend req = TuneHubResolved
     \<lparr>th_status = 200, th_contentType = Some ''application/json'',
      th_json = Some (JObj [(''code'', JNum 0),
                            (''data'', JArr [JObj [(''lrc'', JStr ''[00:01.00]la la'')]])])\<rparr>"

section \<open>Properties of the Piped client\<close>

lemma pipedLoop_exit:
  "\<not> i < length avail \<Longrightarrow>
   pipedLoop fetch now endpoint avail start i st reqs =
     (None, st\<lparr>currentInstanceIndex := (start + 1) mod length avail\<rparr>, reqs)"
  by (subst pipedLoop.simps) (simp add: Let_def)

lemma pipedLoop_bad:
  "i < length avail \<Longrightarrow> \<not> acceptable (fetch i (tried avail start i @ endpoint)) \<Longrightarrow>
   pipedLoop fetch now endpoint avail start i st reqs =
     pipedLoop fetch now endpoint avail start (Suc i)
       (markBroken st (tried avail start i) now) (reqs @ [tried avail start i @ endpoint])"
  by (subst pipedLoop.simps)
     (simp add: Let_def acceptable_def tried_def split: fetch_outcome.splits)

lemma pipedLoop_good:
  "i < length avail \<Longrightarrow> fetch i (tried avail start i @ endpoint) = Resolved r \<Longrightarrow>
   ok r \<Longrightarrow> isJson r \<Longrightarrow>
   pipedLoop fetch now endpoint avail start i st reqs =
     (Some r,
      (if indexOf (PIPED_INSTANCES st) (tried avail start i) \<ge> 0
       then st\<lparr>currentInstanceIndex :=
              (nat (indexOf (PIPED_INSTANCES st) (tried avail start i)) + 1)
                 mod length (PIPED_INSTANCES st)\<rparr>
       else st),
      reqs @ [tried avail start i @ endpoint])"
  by (subst pipedLoop.simps)
     (simp add: Let_def tried_def isRedirect_def ok_def)

lemma indexOf_absent: "x \<notin> set xs \<Longrightarrow> indexOf xs x = - 1"
  by (induction xs) (auto simp: Let_def)

lemma indexOf_present:
  "x \<in> set xs \<Longrightarrow> 0 \<le> indexOf xs x \<and> nat (indexOf xs x) < length xs \<and> xs ! nat (indexOf xs x) = x"
proof (induction xs)
  case Nil
  then show ?case by simp
next
  case (Cons y ys)
  show ?case
  proof (cases "y = x")
    case True
    then show ?thesis by simp
  next
    case False
    with Cons.prems have "x \<in> set ys" by simp
    from Cons.IH [OF this] False show ?thesis
      by (simp add: Let_def nat_add_distrib)
  qed
qed

lemma markBroken_simps [simp]:
  "BROKEN_INSTANCES (markBroken st inst now) = (BROKEN_INSTANCES st)(inst \<mapsto> now)"
  "PIPED_INSTANCES (markBroken st inst now) = PIPED_INSTANCES st"
  "currentInstanceIndex (markBroken st inst now) = currentInstanceIndex st"
  by (simp_all add: markBroken_def)

lemma pipedLoop_first_acceptable:
  assumes "i \<le> k" "k < length avail"
    and "fetch k (tried avail start k @ endpoint) = Resolved r" "ok r" "isJson r"
    and "\<forall>j. i \<le> j \<and> j < k \<longrightarrow> \<not> acceptable (fetch j (tried avail start j @ endpoint))"
  shows "\<exists>st'. pipedLoop fetch now endpoint avail start i st reqs =
            (Some r, st', reqs @ map (\<lambda>j. tried avail start j @ endpoint) [i..<Suc k])
          \<and> BROKEN_INSTANCES st' =
              (\<lambda>x. if x \<in> tried avail start ` {i..<k} then Some now else BROKEN_INSTANCES st x)
          \<and> PIPED_INSTANCES st' = PIPED_INSTANCES st"
  using assms
proof (induction "k - i" arbitrary: i st reqs)
  case 0
  then have ik: "i = k" by simp
  show ?case
    using pipedLoop_good [of k avail fetch start endpoint r now st reqs] 0 ik
    by auto
next
  case (Suc d)
  then have lt: "i < k" and il: "i < length avail" by auto
  with Suc.prems have bad: "\<not> acceptable (fetch i (tried avail start i @ endpoint))" by auto
  have d: "d = k - Suc i" using Suc.hyps(2) by simp
  have le: "Suc i \<le> k" using lt by simp
  have rest: "\<forall>j. Suc i \<le> j \<and> j < k \<longrightarrow> \<not> acceptable (fetch j (tried avail start j @ endpoint))"
    using Suc.prems by auto
  from Suc.hyps(1) [OF d le Suc.prems(2,3,4,5) rest,
      of "markBroken st (tried avail start i) now" "reqs @ [tried avail start i @ endpoint]"]
  obtain st' where
    run: "pipedLoop fetch now endpoint avail start (Suc i)
            (markBroken st (tried avail start i) now) (reqs @ [tried avail start i @ endpoint]) =
          (Some r, st', (reqs @ [tried avail start i @ endpoint]) @
               map (\<lambda>j. tried avail start j @ endpoint) [Suc i..<Suc k])"
    and br: "BROKEN_INSTANCES st' =
              (\<lambda>x. if x \<in> tried avail start ` {Suc i..<k} then Some now
                   else BROKEN_INSTANCES (markBroken st (tried avail start i) now) x)"
    and pool: "PIPED_INSTANCES st' = PIPED_INSTANCES (markBroken st (tried avail start i) now)"
    by blast
  have set_eq: "{i..<k} = insert i {Suc i..<k}" using lt by auto
  have l: "[i..<Suc k] = i # [Suc i..<Suc k]" using lt by (simp add: upt_conv_Cons)
  have "pipedLoop fetch now endpoint avail start i st reqs =
          (Some r, st', reqs @ map (\<lambda>j. tried avail start j @ endpoint) [i..<Suc k])"
    using pipedLoop_bad [of i avail fetch start endpoint now st reqs] il bad run l by simp
  moreover have "BROKEN_INSTANCES st' =
              (\<lambda>x. if x \<in> tried avail start ` {i..<k} then Some now else BROKEN_INSTANCES st x)"
    unfolding br set_eq by (rule ext) simp
  moreover have "PIPED_INSTANCES st' = PIPED_INSTANCES st" using pool by simp
  ultimately show ?case by blast
qed

lemma pipedLoop_all_fail:
  assumes "\<forall>j. i \<le> j \<and> j < length avail \<longrightarrow> \<not> acceptable (fetch j (tried avail start j @ endpoint))"
  shows "\<exists>st'. pipedLoop fetch now endpoint avail start i st reqs =
            (None, st', reqs @ map (\<lambda>j. tried avail start j @ endpoint) [i..<length avail])
          \<and> BROKEN_INSTANCES st' =
              (\<lambda>x. if x \<in> tried avail start ` {i..<length avail} then Some now
                   else BROKEN_INSTANCES st x)
          \<and> PIPED_INSTANCES st' = PIPED_INSTANCES st
          \<and> currentInstanceIndex st' = (start + 1) mod length avail"
  using assms
proof (induction "length avail - i" arbitrary: i st reqs)
  case 0
  then have "\<not> i < length avail" by simp
  then show ?case using pipedLoop_exit [of i avail fetch now endpoint start st reqs] by auto
next
  case (Suc d)
  then have il: "i < length avail" by auto
  with Suc.prems have bad: "\<not> acceptable (fetch i (tried avail start i @ endpoint))" by auto
  have d: "d = length avail - Suc i" using Suc.hyps(2) by simp
  have rest: "\<forall>j. Suc i \<le> j \<and> j < length avail \<longrightarrow>
                \<not> acceptable (fetch j (tried avail start j @ endpoint))"
    using Suc.prems by auto
  from Suc.hyps(1) [OF d rest,
      of "markBroken st (tried avail start i) now" "reqs @ [tried avail start i @ endpoint]"]
  obtain st' where
    run: "pipedLoop fetch now endpoint avail start (Suc i)
            (markBroken st (tried avail start i) now) (reqs @ [tried avail start i @ endpoint]) =
          (None, st', (reqs @ [tried avail start i @ endpoint]) @
               map (\<lambda>j. tried avail start j @ endpoint) [Suc i..<length avail])"
    and br: "BROKEN_INSTANCES st' =
              (\<lambda>x. if x \<in> tried avail start ` {Suc i..<length avail} then Some now
                   else BROKEN_INSTANCES (markBroken st (tried avail start i) now) x)"
    and pool: "PIPED_INSTANCES st' = PIPED_INSTANCES (markBroken st (tried avail start i) now)"
    and cur: "currentInstanceIndex st' = (start + 1) mod length avail"
    by blast
  have set_eq: "{i..<length avail} = insert i {Suc i..<length avail}" using il by auto
  have l: "[i..<length avail] = i # [Suc i..<length avail]" using il by (simp add: upt_conv_Cons)
  have "pipedLoop fetch now endpoint avail start i st reqs =
          (None, st', reqs @ map (\<lambda>j. tried avail start j @ endpoint) [i..<length avail])"
    using pipedLoop_bad [of i avail fetch start endpoint now st reqs] il bad run l by simp
  moreover have "BROKEN_INSTANCES st' =
              (\<lambda>x. if x \<in> tried avail start ` {i..<length avail} then Some now
                   else BROKEN_INSTANCES st x)"
    unfolding br set_eq by (rule ext) simp
  moreover have "PIPED_INSTANCES st' = PIPED_INSTANCES st" using pool by simp
  ultimately show ?case using cur by blast
qed

lemma set_available:
  "set (available st now) = {i \<in> set (PIPED_INSTANCES st). notBroken (BROKEN_INSTANCES st) now i}"
  by (simp add: available_def)

lemma rotation_start:
  assumes "available st now \<noteq> []"
  shows "rotation st now 0 =
           (if PIPED_INSTANCES st ! (currentInstanceIndex st mod length (PIPED_INSTANCES st))
                 \<in> set (available st now)
            then PIPED_INSTANCES st ! (currentInstanceIndex st mod length (PIPED_INSTANCES st))
            else available st now ! 0)"
proof -
  let ?orig = "PIPED_INSTANCES st ! (currentInstanceIndex st mod length (PIPED_INSTANCES st))"
  from assms have ne: "PIPED_INSTANCES st \<noteq> []" by (auto simp: available_def)
  show ?thesis
  proof (cases "?orig \<in> set (available st now)")
    case True
    from indexOf_present [OF True] ne True show ?thesis
      by (simp add: rotation_def tried_def startIndex_def Let_def)
  next
    case False
    from indexOf_absent [OF False] ne False show ?thesis
      by (simp add: rotation_def tried_def startIndex_def Let_def)
  qed
qed

lemma pipedFetch_loop:
  "available st now \<noteq> [] \<Longrightarrow>
   pipedFetch fetch now endpoint st =
     pipedLoop fetch now endpoint (available st now) (startIndex st (available st now)) 0 st []"
  by (simp add: pipedFetch_def Let_def)

lemma ok_not_redirect: "ok r \<Longrightarrow> \<not> isRedirect r"
  by (simp add: ok_def isRedirect_def)

lemma pipedFetch_returns_first:
  assumes ne: "available st now \<noteq> []"
    and k: "k < length (available st now)"
    and r: "fetch k (rotation st now k @ endpoint) = Resolved r" "ok r" "isJson r"
    and before: "\<forall>j<k. \<not> acceptable (fetch j (rotation st now j @ endpoint))"
  shows "\<exists>st'. pipedFetch fetch now endpoint st =
             (Some r, st', map (\<lambda>j. rotation st now j @ endpoint) [0..<Suc k])
           \<and> BROKEN_INSTANCES st' =
               (\<lambda>x. if x \<in> rotation st now ` {0..<k} then Some now else BROKEN_INSTANCES st x)"
proof -
  have b: "\<forall>j. 0 \<le> j \<and> j < k \<longrightarrow>
     \<not> acceptable (fetch j (tried (available st now) (startIndex st (available st now)) j @ endpoint))"
    using before by (simp add: rotation_def)
  have rot: "rotation st now = tried (available st now) (startIndex st (available st now))"
    by (rule ext) (simp add: rotation_def)
  from pipedLoop_first_acceptable [of 0 k "available st now" fetch
        "startIndex st (available st now)" endpoint r now st "[]"] k r b
  show ?thesis
    unfolding pipedFetch_loop [OF ne] rot by auto
qed

lemma pipedFetch_none:
  assumes ne: "available st now \<noteq> []"
    and bad: "\<forall>j<length (available st now). \<not> acceptable (fetch j (rotation st now j @ endpoint))"
  shows "fst (pipedFetch fetch now endpoint st) = None"
proof -
  have b: "\<forall>j. 0 \<le> j \<and> j < length (available st now) \<longrightarrow>
     \<not> acceptable (fetch j (tried (available st now) (startIndex st (available st now)) j @ endpoint))"
    using bad by (simp add: rotation_def)
  from pipedLoop_all_fail [of 0 "available st now" fetch
        "startIndex st (available st now)" endpoint now st "[]"] b
  show ?thesis
    unfolding pipedFetch_loop [OF ne] by auto
qed

lemma pipedFetch_Some_acceptable:
  assumes ne: "available st now \<noteq> []"
    and res: "fst (pipedFetch fetch now endpoint st) = Some r"
  shows "\<exists>k<length (available st now).
            fetch k (rotation st now k @ endpoint) = Resolved r \<and> ok r \<and> isJson r
          \<and> (\<forall>j<k. \<not> acceptable (fetch j (rotation st now j @ endpoint)))"
proof -
  let ?A = "\<lambda>k. k < length (available st now)
                 \<and> acceptable (fetch k (rotation st now k @ endpoint))"
  have ex: "\<exists>k. ?A k"
  proof (rule ccontr)
    assume "\<not> (\<exists>k. ?A k)"
    then have "\<forall>j<length (available st now).
                 \<not> acceptable (fetch j (rotation st now j @ endpoint))" by blast
    with pipedFetch_none [of st now fetch endpoint] ne res show False by simp
  qed
  define k where "k = (LEAST k. ?A k)"
  have Ak: "?A k" unfolding k_def using ex by (rule LeastI_ex)
  have least: "\<forall>j<k. \<not> ?A j" unfolding k_def using not_less_Least by blast
  from Ak obtain r' where r': "fetch k (rotation st now k @ endpoint) = Resolved r'"
      "ok r'" "isJson r'"
    by (auto simp: acceptable_def split: fetch_outcome.splits)
  have before: "\<forall>j<k. \<not> acceptable (fetch j (rotation st now j @ endpoint))"
    using least Ak by auto
  from pipedFetch_returns_first [of st now k fetch endpoint r'] ne Ak r' before res
  have "r' = r" by auto
  with Ak r' before show ?thesis by blast
qed

text \<open>
  C1. When the pool has a healthy instance, \<open>pipedFetch\<close> returns the response of the
  first attempt, in rotation order, that is answered with a 2xx status and a JSON content
  type: every attempt before it was not acceptable, exactly the instances of those
  attempts are newly marked broken at \<open>now\<close>, and the requests issued are those of the
  attempts up to the winning one. Whatever it returns is 2xx, JSON and not a redirect.
  The rotation starts at the cursor's instance when that instance is healthy and at
  index 0 of the healthy list otherwise.
\<close>

theorem pipedFetch_first_acceptable:
  assumes "available st now \<noteq> []"
  shows "(\<forall>k r. k < length (available st now)
              \<and> fetch k (rotation st now k @ endpoint) = Resolved r \<and> ok r \<and> isJson r
              \<and> (\<forall>j<k. \<not> acceptable (fetch j (rotation st now j @ endpoint)))
            \<longrightarrow> (\<exists>st'. pipedFetch fetch now endpoint st =
                        (Some r, st', map (\<lambda>j. rotation st now j @ endpoint) [0..<Suc k])
                    \<and> BROKEN_INSTANCES st' =
                        (\<lambda>x. if x \<in> rotation st now ` {0..<k} then Some now
                             else BROKEN_INSTANCES st x)))
       \<and> (\<forall>r. fst (pipedFetch fetch now endpoint st) = Some r
            \<longrightarrow> ok r \<and> isJson r \<and> \<not> isRedirect r
              \<and> (\<exists>k<length (available st now).
                     fetch k (rotation st now k @ endpoint) = Resolved r
                   \<and> (\<forall>j<k. \<not> acceptable (fetch j (rotation st now j @ endpoint)))))
       \<and> rotation st now 0 =
           (if PIPED_INSTANCES st ! (currentInstanceIndex st mod length (PIPED_INSTANCES st))
                 \<in> set (available st now)
            then PIPED_INSTANCES st ! (currentInstanceIndex st mod length (PIPED_INSTANCES st))
            else available st now ! 0)"
proof (intro conjI allI impI)
  fix k r
  assume "k < length (available st now)
              \<and> fetch k (rotation st now k @ endpoint) = Resolved r \<and> ok r \<and> isJson r
              \<and> (\<forall>j<k. \<not> acceptable (fetch j (rotation st now j @ endpoint)))"
  then show "\<exists>st'. pipedFetch fetch now endpoint st =
                        (Some r, st', map (\<lambda>j. rotation st now j @ endpoint) [0..<Suc k])
                    \<and> BROKEN_INSTANCES st' =
                        (\<lambda>x. if x \<in> rotation st now ` {0..<k} then Some now
                             else BROKEN_INSTANCES st x)"
    using pipedFetch_returns_first [of st now k fetch endpoint r] assms by blast
next
  fix r assume res: "fst (pipedFetch fetch now endpoint st) = Some r"
  from pipedFetch_Some_acceptable [OF assms res]
  obtain k where k: "k < length (available st now)"
      "fetch k (rotation st now k @ endpoint) = Resolved r" "ok r" "isJson r"
      "\<forall>j<k. \<not> acceptable (fetch j (rotation st now j @ endpoint))" by blast
  show "ok r" by (rule k(3))
  show "isJson r" by (rule k(4))
  show "\<not> isRedirect r" using k(3) by (rule ok_not_redirect)
  show "\<exists>k<length (available st now).
                     fetch k (rotation st now k @ endpoint) = Resolved r
                   \<and> (\<forall>j<k. \<not> acceptable (fetch j (rotation st now j @ endpoint)))"
    using k by blast
next
  show "rotation st now 0 =
           (if PIPED_INSTANCES st ! (currentInstanceIndex st mod length (PIPED_INSTANCES st))
                 \<in> set (available st now)
            then PIPED_INSTANCES st ! (currentInstanceIndex st mod length (PIPED_INSTANCES st))
            else available st now ! 0)"
    by (rule rotation_start [OF assms])
qed

theorem pipedFetch_first_acceptable_witness:
  "available \<lparr>PIPED_INSTANCES = [''a'', ''b'', ''c''], currentInstanceIndex = 0,
        BROKEN_INSTANCES = [''a'' \<mapsto> 1000]\<rparr> 2000 \<noteq> []
   \<and> fst (pipedFetch
        (\<lambda>k url. if k = 0 then Resolved \<lparr>status = 302, contentType = None, payload = []\<rparr>
                  else Resolved \<lparr>status = 200, contentType = Some ''application/json'',
                                  payload = ''{}''\<rparr>)
        2000 ''/x''
        \<lparr>PIPED_INSTANCES = [''a'', ''b'', ''c''], currentInstanceIndex = 0,
         BROKEN_INSTANCES = [''a'' \<mapsto> 1000]\<rparr>)
     = Some \<lparr>status = 200, contentType = Some ''application/json'', payload = ''{}''\<rparr>"
proof -
  let ?st = "\<lparr>PIPED_INSTANCES = [''a'', ''b'', ''c''], currentInstanceIndex = 0,
        BROKEN_INSTANCES = [''a'' \<mapsto> 1000]\<rparr>"
  let ?f = "\<lambda>k (url::string). if k = (0::nat)
                  then Resolved \<lparr>status = 302, contentType = None, payload = []\<rparr>
                  else Resolved \<lparr>status = 200, contentType = Some ''application/json'',
                                  payload = ''{}''\<rparr>"
  let ?r = "\<lparr>status = 200, contentType = Some ''application/json'', payload = ''{}''\<rparr>"
  have av: "available ?st 2000 = [''b'', ''c'']"
    by (simp add: available_def notBroken_def BROKEN_TIMEOUT_def)
  then have ne: "available ?st 2000 \<noteq> []" by simp
  have pre: "1 < length (available ?st 2000)
              \<and> ?f 1 (rotation ?st 2000 1 @ ''/x'') = Resolved ?r \<and> ok ?r \<and> isJson ?r
              \<and> (\<forall>j<1. \<not> acceptable (?f j (rotation ?st 2000 j @ ''/x'')))"
    by (simp add: av ok_def isJson_def acceptable_def)
  from pipedFetch_first_acceptable [OF ne, of ?f "''/x''", THEN conjunct1, rule_format, OF pre]
  show ?thesis using ne by auto
qed

lemma tried_in_avail: "avail \<noteq> [] \<Longrightarrow> tried avail start k \<in> set avail"
  by (simp add: tried_def)

lemma pipedLoop_reqs:
  "set (snd (snd (pipedLoop fetch now endpoint avail start i st reqs)))
     \<subseteq> set reqs \<union> (\<lambda>a. a @ endpoint) ` set avail"
proof (induction "length avail - i" arbitrary: i st reqs)
  case 0
  then have "\<not> i < length avail" by simp
  then show ?case by (simp add: pipedLoop_exit)
next
  case (Suc d)
  then have il: "i < length avail" by auto
  then have mem: "tried avail start i \<in> set avail" by (auto intro: tried_in_avail)
  have d: "d = length avail - Suc i" using Suc.hyps(2) by simp
  show ?case
  proof (cases "acceptable (fetch i (tried avail start i @ endpoint))")
    case True
    then obtain r where "fetch i (tried avail start i @ endpoint) = Resolved r" "ok r" "isJson r"
      by (auto simp: acceptable_def split: fetch_outcome.splits)
    with il mem show ?thesis
      using pipedLoop_good [of i avail fetch start endpoint r now st reqs] by auto
  next
    case False
    from Suc.hyps(1) [OF d, of "markBroken st (tried avail start i) now"
        "reqs @ [tried avail start i @ endpoint]"] mem
    show ?thesis
      unfolding pipedLoop_bad [of i avail fetch start endpoint now st reqs, OF il False]
      by auto
  qed
qed

lemma notBroken_marked:
  "tbl inst = Some T \<Longrightarrow> notBroken tbl now inst \<longleftrightarrow> T + 5 * 60 * 1000 < now"
  by (simp add: notBroken_def BROKEN_TIMEOUT_def) arith

lemma pipedFetch_reqs:
  "set (snd (snd (pipedFetch fetch now endpoint st)))
     \<subseteq> (\<lambda>a. a @ endpoint) ` set (available st now)"
proof (cases "available st now = []")
  case True
  then show ?thesis by (simp add: pipedFetch_def)
next
  case False
  show ?thesis
    unfolding pipedFetch_loop [OF False]
    using pipedLoop_reqs [of fetch now endpoint "available st now"
            "startIndex st (available st now)" 0 st "[]"] by simp
qed

text \<open>
  C7. An instance whose table entry is \<open>T\<close> is in the healthy list of \<open>pipedFetch\<close>
  exactly when it is in the pool and \<open>now\<close> is later than \<open>T\<close> plus five minutes; it
  contributes to \<open>isAvailable\<close> under the same condition; and up to that moment
  \<open>pipedFetch\<close> sends it no request. The state is the same on both sides: eligibility
  returns with the clock alone.
\<close>

theorem broken_window:
  assumes "BROKEN_INSTANCES st inst = Some T"
  shows "(inst \<in> set (available st now) \<longleftrightarrow>
            inst \<in> set (PIPED_INSTANCES st) \<and> T + 5 * 60 * 1000 < now)
       \<and> (isAvailable st now \<longleftrightarrow>
            (inst \<in> set (PIPED_INSTANCES st) \<and> T + 5 * 60 * 1000 < now)
          \<or> (\<exists>other \<in> set (PIPED_INSTANCES st). other \<noteq> inst
                \<and> notBroken (BROKEN_INSTANCES st) now other))
       \<and> (now \<le> T + 5 * 60 * 1000 \<longrightarrow>
            inst @ endpoint \<notin> set (snd (snd (pipedFetch fetch now endpoint st))))"
proof (intro conjI impI)
  have nb: "notBroken (BROKEN_INSTANCES st) now inst \<longleftrightarrow> T + 5 * 60 * 1000 < now"
    using notBroken_marked [of "BROKEN_INSTANCES st" inst T now] assms by simp
  show a: "inst \<in> set (available st now) \<longleftrightarrow>
            inst \<in> set (PIPED_INSTANCES st) \<and> T + 5 * 60 * 1000 < now"
    unfolding set_available using nb by simp
  show "isAvailable st now \<longleftrightarrow>
            (inst \<in> set (PIPED_INSTANCES st) \<and> T + 5 * 60 * 1000 < now)
          \<or> (\<exists>other \<in> set (PIPED_INSTANCES st). other \<noteq> inst
                \<and> notBroken (BROKEN_INSTANCES st) now other)"
    unfolding isAvailable_def list_ex_iff using nb by metis
  assume w: "now \<le> T + 5 * 60 * 1000"
  then have "inst \<notin> set (available st now)" using a by simp
  then show "inst @ endpoint \<notin> set (snd (snd (pipedFetch fetch now endpoint st)))"
    using pipedFetch_reqs [of fetch now endpoint st] by auto
qed

theorem broken_window_witness:
  "(''a'' \<in> set (available
       \<lparr>PIPED_INSTANCES = [''a'', ''b''], currentInstanceIndex = 0,
        BROKEN_INSTANCES = [''a'' \<mapsto> 1000]\<rparr> 301000) \<longleftrightarrow> False)
   \<and> (''a'' \<in> set (available
       \<lparr>PIPED_INSTANCES = [''a'', ''b''], currentInstanceIndex = 0,
        BROKEN_INSTANCES = [''a'' \<mapsto> 1000]\<rparr> 301001) \<longleftrightarrow> True)"
  using broken_window [of
       "\<lparr>PIPED_INSTANCES = [''a'', ''b''], currentInstanceIndex = 0,
        BROKEN_INSTANCES = [''a'' \<mapsto> 1000]\<rparr>" "''a''" 1000 301000]
     broken_window [of
       "\<lparr>PIPED_INSTANCES = [''a'', ''b''], currentInstanceIndex = 0,
        BROKEN_INSTANCES = [''a'' \<mapsto> 1000]\<rparr>" "''a''" 1000 301001]
  by simp

text \<open>
  C8. When every instance of the pool has a table entry at most five minutes old,
  \<open>pipedFetch\<close> returns \<open>null\<close>, issues no request and leaves the module state as it
  was.
\<close>

theorem all_broken_null:
  assumes "\<forall>inst \<in> set (PIPED_INSTANCES st).
             \<exists>t. BROKEN_INSTANCES st inst = Some t \<and> now - t \<le> BROKEN_TIMEOUT"
  shows "pipedFetch fetch now endpoint st = (None, st, [])"
proof -
  have "available st now = []"
    unfolding available_def filter_empty_conv using assms
    by (auto simp: notBroken_def)
  then show ?thesis by (simp add: pipedFetch_def)
qed

theorem all_broken_null_witness:
  "pipedFetch (\<lambda>k url. Resolved \<lparr>status = 200, contentType = Some ''application/json'',
                                  payload = ''{}''\<rparr>) 5000 ''/x''
     \<lparr>PIPED_INSTANCES = [''a'', ''b''], currentInstanceIndex = 1,
      BROKEN_INSTANCES = [''a'' \<mapsto> 1000, ''b'' \<mapsto> 4000]\<rparr>
   = (None,
      \<lparr>PIPED_INSTANCES = [''a'', ''b''], currentInstanceIndex = 1,
      BROKEN_INSTANCES = [''a'' \<mapsto> 1000, ''b'' \<mapsto> 4000]\<rparr>, [])"
  by (rule all_broken_null) (simp add: BROKEN_TIMEOUT_def)

section \<open>Properties of the aggregator\<close>

subsection \<open>The aggregate search keeps the first entry of each key\<close>

lemma mergeUnique_throws:
  "\<exists>s \<in> set xs. songKey lc s = None \<Longrightarrow> mergeUnique lc m xs = None"
proof (induction xs arbitrary: m)
  case Nil
  then show ?case by simp
next
  case (Cons x xs)
  show ?case
  proof (cases "songKey lc x")
    case None
    then show ?thesis by simp
  next
    case (Some key)
    with Cons.prems have "\<exists>s \<in> set xs. songKey lc s = None" by auto
    then show ?thesis using Some by (simp add: Cons.IH)
  qed
qed

lemma mergeUnique_keepFirst:
  assumes "\<forall>s \<in> set xs. songKey lc s \<noteq> None"
    and "\<forall>(k, s) \<in> set m. songKey lc s = Some k"
  shows "\<exists>m'. mergeUnique lc m xs = Some m'
          \<and> map snd m' = map snd m @
               filter (\<lambda>y. songKey lc y \<notin> songKey lc ` snd ` set m) (keepFirst (songKey lc) xs)"
  using assms
proof (induction xs arbitrary: m)
  case Nil
  then show ?case by simp
next
  case (Cons x xs)
  let ?K = "songKey lc ` snd ` set m"
  let ?ys = "keepFirst (songKey lc) xs"
  from Cons.prems(1) obtain key where key: "songKey lc x = Some key" by auto
  have rest: "\<forall>s \<in> set xs. songKey lc s \<noteq> None" using Cons.prems(1) by simp
  have img: "Some ` fst ` set m = ?K"
    using Cons.prems(2) by (force simp: image_iff)
  have mem: "key \<in> set (map fst m) \<longleftrightarrow> songKey lc x \<in> ?K"
    unfolding key img [symmetric] by auto
  show ?case
  proof (cases "songKey lc x \<in> ?K")
    case True
    have f: "filter (\<lambda>y. songKey lc y \<noteq> Some key \<and> songKey lc y \<notin> ?K) ?ys
             = filter (\<lambda>y. songKey lc y \<notin> ?K) ?ys"
    proof -
      have "\<And>y. songKey lc y \<notin> ?K \<Longrightarrow> songKey lc y \<noteq> Some key"
        using True unfolding key by metis
      then show ?thesis by (intro filter_cong) auto
    qed
    from Cons.IH [OF rest Cons.prems(2)] obtain m' where
      m': "mergeUnique lc m xs = Some m'"
          "map snd m' = map snd m @ filter (\<lambda>y. songKey lc y \<notin> ?K) ?ys" by blast
    show ?thesis using m' True mem key by (simp add: f)
  next
    case False
    have inv: "\<forall>(k, s) \<in> set (m @ [(key, x)]). songKey lc s = Some k"
      using Cons.prems(2) key by auto
    have K': "songKey lc ` snd ` set (m @ [(key, x)]) = insert (songKey lc x) ?K"
      by auto
    from Cons.IH [OF rest inv] obtain m' where
      m': "mergeUnique lc (m @ [(key, x)]) xs = Some m'"
          "map snd m' = map snd (m @ [(key, x)]) @
             filter (\<lambda>y. songKey lc y \<notin> insert (songKey lc x) ?K) ?ys"
      unfolding K' by blast
    show ?thesis using m' False mem key by simp
  qed
qed

lemma searchAggregate_merged:
  assumes "\<forall>s \<in> set (results yt @ results pp). songKey lc s \<noteq> None"
  shows "searchAggregate lc yt pp again =
           Some (take 50 (keepFirst (songKey lc) (results yt @ results pp)))"
proof -
  from mergeUnique_keepFirst [of "results yt @ results pp" lc "[]"] assms
  obtain m' where "mergeUnique lc [] (results yt @ results pp) = Some m'"
    "map snd m' = keepFirst (songKey lc) (results yt @ results pp)" by auto
  then show ?thesis by (simp add: searchAggregate_def results_def Let_def)
qed

lemma searchAggregate_thrown:
  assumes "\<exists>s \<in> set (results yt @ results pp). songKey lc s = None"
  shows "searchAggregate lc yt pp again = again"
  using mergeUnique_throws [of "results yt @ results pp" lc "[]"] assms
  by (simp add: searchAggregate_def results_def Let_def)

lemma songKey_Some:
  "songKey lc s \<noteq> None \<Longrightarrow>
   \<exists>n a. name s = JStr n \<and> artist s = JStr a \<and> songKey lc s = Some (lc n @ ''|'' @ lc a)"
  by (auto simp: songKey_def toLowerCaseOf_def split: json.splits option.splits)

lemma keepFirst_subset: "set (keepFirst f xs) \<subseteq> set xs"
  by (induction xs) auto

lemma keepFirst_distinct: "distinct (map f (keepFirst f xs))"
proof (induction xs)
  case Nil
  then show ?case by simp
next
  case (Cons x xs)
  have "distinct (map f (filter (\<lambda>y. f y \<noteq> f x) (keepFirst f xs)))"
    using Cons.IH by (simp add: distinct_map_filter)
  then show ?case by (auto simp: image_iff)
qed

lemma keepFirst_find:
  "s \<in> set (keepFirst f xs) \<Longrightarrow> List.find (\<lambda>y. f y = f s) xs = Some s"
  by (induction xs) (auto)

lemma find_append_first:
  "List.find P (xs @ ys) = (case List.find P xs of None \<Rightarrow> List.find P ys | Some x \<Rightarrow> Some x)"
  by (induction xs) auto

lemma songKey_textual: "songKey lc s \<noteq> None \<longleftrightarrow> textual s"
  by (cases "name s"; cases "artist s") (simp_all add: songKey_def toLowerCaseOf_def textual_def)

text \<open>
  C4, as amended. When the name and the artist of every entry the two sources returned
  are strings, the aggregate search returns at most 50 entries, no two with the same
  lower-cased \<open>name|artist\<close> key; every entry returned is the first entry of the
  concatenation (YouTube's results, then Piped's) that carries its key, so that an entry
  whose key occurs among YouTube's results is one of YouTube's; and when one client
  rejects, the result is the deduplicated list of the other, cut at 50. When some entry
  has a name or an artist that is not a string, the merge throws and the function hands
  back the outcome of a second YouTube search as it is.
\<close>

theorem searchAggregate_dedup:
  "((\<forall>s \<in> set (results yt @ results pp). textual s) \<longrightarrow>
      (\<exists>res. searchAggregate lc yt pp again = Some res
         \<and> res = take 50 (keepFirst (songKey lc) (results yt @ results pp))
         \<and> length res \<le> 50
         \<and> distinct (map (songKey lc) res)
         \<and> (\<forall>s \<in> set res. \<exists>n a. name s = JStr n \<and> artist s = JStr a
                \<and> songKey lc s = Some (lc n @ ''|'' @ lc a))
         \<and> (\<forall>s \<in> set res.
               List.find (\<lambda>y. songKey lc y = songKey lc s) (results yt @ results pp) = Some s)
         \<and> (\<forall>s \<in> set res. \<forall>y \<in> set (results yt).
               songKey lc y = songKey lc s \<longrightarrow> s \<in> set (results yt))))
   \<and> ((\<forall>s \<in> set (results pp). textual s) \<longrightarrow>
        searchAggregate lc None pp again = Some (take 50 (keepFirst (songKey lc) (results pp))))
   \<and> ((\<forall>s \<in> set (results yt). textual s) \<longrightarrow>
        searchAggregate lc yt None again = Some (take 50 (keepFirst (songKey lc) (results yt))))
   \<and> ((\<exists>s \<in> set (results yt @ results pp). \<not> textual s) \<longrightarrow>
        searchAggregate lc yt pp again = again)"
proof (intro conjI impI)
  let ?all = "results yt @ results pp"
  let ?res = "take 50 (keepFirst (songKey lc) ?all)"
  assume t: "\<forall>s \<in> set ?all. textual s"
  then have k: "\<forall>s \<in> set ?all. songKey lc s \<noteq> None"
    using songKey_textual [of lc] by blast
  have eq: "searchAggregate lc yt pp again = Some ?res"
    by (rule searchAggregate_merged [OF k])
  have sub: "set ?res \<subseteq> set (keepFirst (songKey lc) ?all)" by (rule set_take_subset)
  have d: "distinct (map (songKey lc) ?res)"
    unfolding take_map [symmetric] by (rule distinct_take) (rule keepFirst_distinct)
  have key: "\<forall>s \<in> set ?res. \<exists>n a. name s = JStr n \<and> artist s = JStr a
                \<and> songKey lc s = Some (lc n @ ''|'' @ lc a)"
  proof
    fix s assume "s \<in> set ?res"
    with sub keepFirst_subset [of "songKey lc" ?all] have "s \<in> set ?all" by blast
    with k have "songKey lc s \<noteq> None" by blast
    then show "\<exists>n a. name s = JStr n \<and> artist s = JStr a
                \<and> songKey lc s = Some (lc n @ ''|'' @ lc a)" by (rule songKey_Some)
  qed
  have f: "\<forall>s \<in> set ?res. List.find (\<lambda>y. songKey lc y = songKey lc s) ?all = Some s"
    using sub keepFirst_find [of _ "songKey lc" ?all] by blast
  have y: "\<forall>s \<in> set ?res. \<forall>y \<in> set (results yt).
               songKey lc y = songKey lc s \<longrightarrow> s \<in> set (results yt)"
  proof (intro ballI impI)
    fix s y assume s: "s \<in> set ?res" and y: "y \<in> set (results yt)"
      "songKey lc y = songKey lc s"
    from y have "List.find (\<lambda>y. songKey lc y = songKey lc s) (results yt) \<noteq> None"
      by (auto simp: find_None_iff)
    then obtain z where z: "List.find (\<lambda>y. songKey lc y = songKey lc s) (results yt) = Some z"
      by auto
    moreover from f s
    have "List.find (\<lambda>y. songKey lc y = songKey lc s) (results yt @ results pp) = Some s"
      by blast
    ultimately have "z = s" by (simp add: find_append_first)
    with z show "s \<in> set (results yt)" by (auto simp: find_Some_iff)
  qed
  from eq d key f y show "\<exists>res. searchAggregate lc yt pp again = Some res
         \<and> res = take 50 (keepFirst (songKey lc) (results yt @ results pp))
         \<and> length res \<le> 50
         \<and> distinct (map (songKey lc) res)
         \<and> (\<forall>s \<in> set res. \<exists>n a. name s = JStr n \<and> artist s = JStr a
                \<and> songKey lc s = Some (lc n @ ''|'' @ lc a))
         \<and> (\<forall>s \<in> set res.
               List.find (\<lambda>y. songKey lc y = songKey lc s) (results yt @ results pp) = Some s)
         \<and> (\<forall>s \<in> set res. \<forall>y \<in> set (results yt).
               songKey lc y = songKey lc s \<longrightarrow> s \<in> set (results yt))"
    by simp
next
  assume "\<forall>s \<in> set (results pp). textual s"
  then have "\<forall>s \<in> set (results None @ results pp). songKey lc s \<noteq> None"
    using songKey_textual [of lc] by (auto simp: results_def)
  from searchAggregate_merged [OF this]
  show "searchAggregate lc None pp again = Some (take 50 (keepFirst (songKey lc) (results pp)))"
    by (simp add: results_def)
next
  assume "\<forall>s \<in> set (results yt). textual s"
  then have "\<forall>s \<in> set (results yt @ results None). songKey lc s \<noteq> None"
    using songKey_textual [of lc] by (auto simp: results_def)
  from searchAggregate_merged [OF this]
  show "searchAggregate lc yt None again = Some (take 50 (keepFirst (songKey lc) (results yt)))"
    by (simp add: results_def)
next
  assume "\<exists>s \<in> set (results yt @ results pp). \<not> textual s"
  then have "\<exists>s \<in> set (results yt @ results pp). songKey lc s = None"
    using songKey_textual [of lc] by blast
  then show "searchAggregate lc yt pp again = again" by (rule searchAggregate_thrown)
qed

theorem searchAggregate_dedup_witness:
  "searchAggregate lowerAX (Some [songA, songB]) (Some [songA_piped, songC]) None
     = Some [songA, songB, songC]
   \<and> distinct (map (songKey lowerAX) [songA, songB, songC])
   \<and> searchAggregate lowerAX None (Some [songA_piped, songC]) None = Some [songA_piped, songC]
   \<and> searchAggregate lowerAX (Some [songB, songB]) (Some [songNumericArtist]) (Some [songB, songB])
     = Some [songB, songB]"
proof -
  have t: "\<forall>s \<in> set (results (Some [songA, songB]) @ results (Some [songA_piped, songC])). textual s"
    by (simp add: results_def textual_def songA_def songB_def songC_def songA_piped_def)
  have tp: "\<forall>s \<in> set (results (Some [songA_piped, songC])). textual s"
    by (simp add: results_def textual_def songC_def songA_piped_def)
  have n: "\<exists>s \<in> set (results (Some [songB, songB]) @ results (Some [songNumericArtist])). \<not> textual s"
    by (simp add: results_def textual_def songNumericArtist_def)
  have kf: "keepFirst (songKey lowerAX) [songA, songB, songA_piped, songC] = [songA, songB, songC]"
    by (simp add: songKey_def toLowerCaseOf_def lowerAX_def
          songA_def songB_def songC_def songA_piped_def)
  have kp: "keepFirst (songKey lowerAX) [songA_piped, songC] = [songA_piped, songC]"
    by (simp add: songKey_def toLowerCaseOf_def lowerAX_def songC_def songA_piped_def)
  from searchAggregate_dedup [of "Some [songA, songB]" "Some [songA_piped, songC]" lowerAX None,
      THEN conjunct1, THEN mp, OF t]
  obtain res where res: "searchAggregate lowerAX (Some [songA, songB]) (Some [songA_piped, songC]) None
        = Some res"
      "res = take 50 (keepFirst (songKey lowerAX)
               (results (Some [songA, songB]) @ results (Some [songA_piped, songC])))"
      "distinct (map (songKey lowerAX) res)" by blast
  have all: "results (Some [songA, songB]) @ results (Some [songA_piped, songC])
               = [songA, songB, songA_piped, songC]"
    and rp: "results (Some [songA_piped, songC]) = [songA_piped, songC]"
    by (simp_all add: results_def)
  have r: "res = [songA, songB, songC]" unfolding res(2) all kf by simp
  have p: "searchAggregate lowerAX None (Some [songA_piped, songC]) None = Some [songA_piped, songC]"
    using searchAggregate_dedup [of "Some [songA, songB]" "Some [songA_piped, songC]" lowerAX None,
      THEN conjunct2, THEN conjunct1, THEN mp, OF tp]
    unfolding rp kp by simp
  have c: "searchAggregate lowerAX (Some [songB, songB]) (Some [songNumericArtist]) (Some [songB, songB])
     = Some [songB, songB]"
    by (rule searchAggregate_dedup [of "Some [songB, songB]" "Some [songNumericArtist]" lowerAX
          "Some [songB, songB]", THEN conjunct2, THEN conjunct2, THEN conjunct2, THEN mp, OF n])
  from res(1,3) r p c show ?thesis by simp
qed

text \<open>
  C4 as stated fails: YouTube returns 51 entries with one title and one artist, Piped
  an entry whose uploader is a number. The merge throws at that entry, and the second
  YouTube search comes back unmerged: 51 entries that all share one key.
\<close>

theorem searchAggregate_fallback_counterexample:
  "searchAggregate lowerAX (Some (replicate 51 songA)) (Some [songNumericArtist])
       (Some (replicate 51 songA))
     = Some (replicate 51 songA)
   \<and> length (replicate 51 songA) = 51
   \<and> \<not> distinct (map (songKey lowerAX) (replicate 51 songA))"
proof -
  have "replicate 51 songA = songA # songA # replicate 49 songA"
    by (simp add: numeral_eq_Suc)
  then have d: "\<not> distinct (map (songKey lowerAX) (replicate 51 songA))" by simp
  have "songKey lowerAX songNumericArtist = None"
    by (simp add: songKey_def toLowerCaseOf_def songNumericArtist_def)
  then have "\<exists>s \<in> set (results (Some (replicate 51 songA)) @ results (Some [songNumericArtist])).
               songKey lowerAX s = None"
    by (simp add: results_def)
  then have "searchAggregate lowerAX (Some (replicate 51 songA)) (Some [songNumericArtist])
       (Some (replicate 51 songA)) = Some (replicate 51 songA)"
    by (rule searchAggregate_thrown)
  with d show ?thesis by simp
qed

subsection \<open>Lyrics\<close>

lemma getLyrics_youtube: "getLyrics backend ident ''youtube'' = (JStr [], [])"
  by (simp add: getLyrics_def)

text \<open>
  C9. For the source tag \<open>piped\<close> the lookup of lyrics is not short-circuited: with an
  ordinary video id, \<open>getLyrics\<close> posts a parse request to the legacy backend and returns
  the lyric text that backend supplies.
\<close>

theorem getLyrics_piped_reaches_backend:
  "getLyrics lyricBackend ''dQw4w9WgXcQ'' ''piped'' =
     (JStr ''[00:01.00]la la'',
      [\<lparr>req_platform = ''piped'', req_ids = ''dQw4w9WgXcQ'', req_quality = ''320k''\<rparr>])"
  by (simp add: getLyrics_def parseSongs_def tuneHubFetch_def lyricBackend_def extractList_def
        firstItem_def lyricsOf_def or_js_def Let_def)

subsection \<open>Placeholder ids\<close>

lemma startsWith_append: "startsWith (p @ s) p"
  by (induction p) auto

text \<open>
  C10. Given an id that starts with \<open>temp_\<close>, \<open>parseSongs\<close> returns \<open>null\<close> for every
  platform and quality without a request to the backend. A song that \<open>normalizeSongs\<close>
  marks with \<open>isValidId = false\<close> carries such an id, so for it \<open>parseSongs\<close>, \<open>getLyrics\<close>
  and \<open>parseSongFull\<close> return at once and make no upstream call.
\<close>

theorem placeholder_ids_never_parsed:
  "(startsWith ids ''temp_'' \<longrightarrow> parseSongs backend ids platform quality = (None, []))
   \<and> (normalizeId found suffix = (ident, False) \<longrightarrow>
         startsWith ident ''temp_''
       \<and> parseSongs backend ident platform quality = (None, [])
       \<and> getLyrics backend ident platform = (JStr [], [])
       \<and> parseSongFull env now later cache ident platform quality = (None, cache, []))"
proof (intro conjI impI)
  show "parseSongs backend ids platform quality = (None, [])" if "startsWith ids ''temp_''"
    using that by (simp add: parseSongs_def)
  assume n: "normalizeId found suffix = (ident, False)"
  then have "ident = ''temp_'' @ suffix" by (auto simp: normalizeId_def)
  then show t: "startsWith ident ''temp_''" using startsWith_append [of "''temp_''" suffix] by simp
  then show p: "parseSongs backend ident platform quality = (None, [])"
    by (simp add: parseSongs_def)
  have "parseSongs backend ident platform ''320k'' = (None, [])" using t by (simp add: parseSongs_def)
  then show "getLyrics backend ident platform = (JStr [], [])"
    by (simp add: getLyrics_def firstItem_def lyricsOf_def or_js_def)
  show "parseSongFull env now later cache ident platform quality = (None, cache, [])"
    using t by (simp add: parseSongFull_def)
qed

theorem placeholder_ids_never_parsed_witness:
  "parseSongs lyricBackend ''temp_k3x9'' ''netease'' ''320k'' = (None, [])
   \<and> normalizeId None ''k3x9'' = (''temp_k3x9'', False)
   \<and> getLyrics lyricBackend ''temp_k3x9'' ''netease'' = (JStr [], [])"
proof -
  have s: "startsWith ''temp_k3x9'' ''temp_''" by simp
  have n: "normalizeId None ''k3x9'' = (''temp_k3x9'', False)" by (simp add: normalizeId_def)
  from placeholder_ids_never_parsed [of "''temp_k3x9''" lyricBackend "''netease''" "''320k''"
      None "''k3x9''" "''temp_k3x9''", THEN conjunct1, rule_format, OF s]
    placeholder_ids_never_parsed [of "''temp_k3x9''" lyricBackend "''netease''" "''320k''"
      None "''k3x9''" "''temp_k3x9''", THEN conjunct2, rule_format, OF n] n
  show ?thesis by simp
qed

section \<open>Properties of the playback engine\<close>

subsection \<open>Fields that the parts of playSong leave alone\<close>

lemma render_fields [simp]:
  "retryCount (render st) = retryCount st"
  "audio (render st) = audio st"
  "audioCtx (render st) = audioCtx st"
  "audioCtxConnected (render st) = audioCtxConnected st"
  "currentSong (render st) = currentSong st"
  "queue (render st) = queue st"
  "isPlaying (render st) = isPlaying st"
  "isLoading (render st) = isLoading st"
  "currentSongRef (render st) = currentSong st"
  by (simp_all add: render_def)

lemma createAudioElement_fields [simp]:
  "retryCount (createAudioElement w st) = retryCount st"
  "currentSong (createAudioElement w st) = currentSong st"
  "queue (createAudioElement w st) = queue st"
  "currentSongRef (createAudioElement w st) = currentSongRef st"
  by (simp_all add: createAudioElement_def Let_def)

lemma initAudioContext_fields [simp]:
  "retryCount (initAudioContext env st) = retryCount st"
  "currentSong (initAudioContext env st) = currentSong st"
  "queue (initAudioContext env st) = queue st"
  "currentSongRef (initAudioContext env st) = currentSongRef st"
  by (simp_all add: initAudioContext_def)

lemma playSong_resume_keeps:
  "retryCount (playSong_resume env st sg same diff u) = retryCount st
   \<and> currentSong (playSong_resume env st sg same diff u) = currentSong st
   \<and> queue (playSong_resume env st sg same diff u) = queue st"
  by (simp add: playSong_resume_def Let_def split: option.splits)

lemma playSong_forced_keeps:
  "retryCount (fst (playSong env net effectsRan st sg (Some q))) = retryCount st"
  by (simp add: playSong_def playSong_begin_def Let_def playSong_resume_keeps
           split: option.splits prod.splits)

subsection \<open>Retry after a playback error\<close>

lemma onError_cases:
  "onError st =
     (if currentSongRef st \<noteq> None \<and> audioQualityRef st \<noteq> Q128k \<and> retryCount st = 0
      then (st\<lparr>retryCount := 1\<rparr>, [PlaySong (the (currentSongRef st)) (Some Q128k)])
      else (st\<lparr>isLoading := False, isPlaying := False, retryCount := 0\<rparr>, []))"
  by (simp add: onError_def split: option.splits)

text \<open>
  C2, as amended. When playback errors while a song is current, the quality setting is not
  \<open>128k\<close> and the retry counter is 0, the handler calls \<open>playSong\<close> once, for the current
  song at \<open>128k\<close>, and sets the counter; an error that follows that retry before the
  \<open>loadedmetadata\<close> event has reset the counter stops playback (\<open>isPlaying\<close> and
  \<open>isLoading\<close> false) and calls nothing. An error while the quality setting is \<open>128k\<close>,
  or while the counter is set, stops playback and calls nothing. The handler reads the
  current song and the quality setting from their refs.
\<close>

theorem onError_retry_once:
  "(currentSongRef st = Some c \<and> audioQualityRef st \<noteq> Q128k \<and> retryCount st = 0 \<longrightarrow>
      onError st = (st\<lparr>retryCount := 1\<rparr>, [PlaySong c (Some Q128k)])
      \<and> onError (fst (playSong env net effectsRan (fst (onError st)) c (Some Q128k))) =
          ((fst (playSong env net effectsRan (fst (onError st)) c (Some Q128k)))
              \<lparr>isLoading := False, isPlaying := False, retryCount := 0\<rparr>, []))
   \<and> (audioQualityRef st = Q128k \<or> retryCount st \<noteq> 0 \<longrightarrow>
      onError st = (st\<lparr>isLoading := False, isPlaying := False, retryCount := 0\<rparr>, []))"
proof (intro conjI impI)
  assume a: "currentSongRef st = Some c \<and> audioQualityRef st \<noteq> Q128k \<and> retryCount st = 0"
  then show first: "onError st = (st\<lparr>retryCount := 1\<rparr>, [PlaySong c (Some Q128k)])"
    by (simp add: onError_cases)
  let ?st2 = "fst (playSong env net effectsRan (fst (onError st)) c (Some Q128k))"
  have "retryCount ?st2 = 1"
    using playSong_forced_keeps [of env net effectsRan "fst (onError st)" c Q128k] first by simp
  then show "onError ?st2 = (?st2\<lparr>isLoading := False, isPlaying := False, retryCount := 0\<rparr>, [])"
    by (simp add: onError_cases)
next
  assume "audioQualityRef st = Q128k \<or> retryCount st \<noteq> 0"
  then show "onError st = (st\<lparr>isLoading := False, isPlaying := False, retryCount := 0\<rparr>, [])"
    by (auto simp: onError_cases)
qed

theorem onError_retry_once_witness:
  "onError playingA = (playingA\<lparr>retryCount := 1\<rparr>, [PlaySong songA (Some Q128k)])
   \<and> snd (onError (fst (playSong desktop cdnUrl True (fst (onError playingA)) songA (Some Q128k))))
       = []
   \<and> onError (playingA\<lparr>audioQualityRef := Q128k\<rparr>) =
        (playingA\<lparr>audioQualityRef := Q128k, isLoading := False, isPlaying := False,
                   retryCount := 0\<rparr>, [])"
proof -
  have h1: "currentSongRef playingA = Some songA \<and> audioQualityRef playingA \<noteq> Q128k
              \<and> retryCount playingA = 0"
    by (simp add: playingA_def)
  have h2: "audioQualityRef (playingA\<lparr>audioQualityRef := Q128k\<rparr>) = Q128k
              \<or> retryCount (playingA\<lparr>audioQualityRef := Q128k\<rparr>) \<noteq> 0"
    by simp
  note first = onError_retry_once [of playingA songA desktop cdnUrl True,
      THEN conjunct1, rule_format, OF h1]
  note at128 = onError_retry_once [of "playingA\<lparr>audioQualityRef := Q128k\<rparr>" songA desktop cdnUrl True,
      THEN conjunct2, rule_format, OF h2]
  show ?thesis
    apply (intro conjI)
      apply (rule first [THEN conjunct1])
     apply (simp only: first [THEN conjunct2] snd_conv)
    apply (rule at128)
    done
qed

text \<open>
  C2 as stated fails: the retry at \<open>128k\<close> leaves the quality setting at \<open>320k\<close>, and
  \<open>loadedmetadata\<close> resets the counter. When the retried stream loads its metadata and
  then errors, this second error starts a second retry and playback is not stopped.
\<close>

theorem onError_second_retry_counterexample:
  "snd (onError playingA) = [PlaySong songA (Some Q128k)]
   \<and> snd (onError (onLoadedmetadata
            (fst (playSong desktop cdnUrl True (fst (onError playingA)) songA (Some Q128k)))))
       = [PlaySong songA (Some Q128k)]
   \<and> isPlaying (fst (onError (onLoadedmetadata
            (fst (playSong desktop cdnUrl True (fst (onError playingA)) songA (Some Q128k))))))"
  by (simp add: onError_def playingA_def songA_def desktop_def cdnUrl_def onLoadedmetadata_def
        playSong_def playSong_begin_def playSong_resume_def resolveUrl_def usable_def
        createAudioElement_def initAudioContext_def render_def Let_def)

subsection \<open>playSong\<close>

text \<open>
  C6. \<open>playSong\<close> without forced quality, for a song with the id of the current song
  while the audio element has a source, asks no client for a stream URL: it flips the
  play state (to the opposite of the \<open>isPlaying\<close> its render showed) and pauses or resumes
  the element, and changes nothing else. Called after the render that followed the last
  change of \<open>isPlaying\<close>, it pauses a playing element and resumes a paused one.
\<close>

theorem playSong_same_song_toggles:
  assumes "audio st = Some a" "hasSource env a" "currentSongRef st = Some c" "id' c = id' sg"
  shows "playSong env net effectsRan st sg None =
           (st\<lparr>audio := Some (a\<lparr>paused := isPlayingRendered st\<rparr>),
               isPlaying := \<not> isPlayingRendered st\<rparr>, [], [])
       \<and> (isPlayingRendered st = isPlaying st \<longrightarrow>
            playSong env net effectsRan st sg None =
              (st\<lparr>audio := Some (a\<lparr>paused := isPlaying st\<rparr>),
                  isPlaying := \<not> isPlaying st\<rparr>, [], []))"
  using assms
  by (simp add: playSong_def playSong_begin_def togglePlay_def Let_def)

theorem playSong_same_song_toggles_witness:
  "playSong desktop cdnUrl True
       (render (fst (playSong desktop cdnUrl True playingA songB None))) songB None =
     ((render (fst (playSong desktop cdnUrl True playingA songB None)))
        \<lparr>audio := Some \<lparr>src = ''https://cdn/B'', currentTime = 0, paused = True, crossOrigin = True\<rparr>,
         isPlaying := False\<rparr>, [], [])
   \<and> snd (playSong desktop cdnUrl True playingA songB None) = ([YoutubeGetAudioUrl ''B''], [])"
proof -
  let ?st = "render (fst (playSong desktop cdnUrl True playingA songB None))"
  let ?a = "\<lparr>src = ''https://cdn/B'', currentTime = 0, paused = False, crossOrigin = True\<rparr>"
  have st: "audio ?st = Some ?a" "currentSongRef ?st = Some songB" "isPlayingRendered ?st"
    and calls: "snd (playSong desktop cdnUrl True playingA songB None)
                  = ([YoutubeGetAudioUrl ''B''], [])"
    by (simp_all add: playingA_def songA_def songB_def desktop_def cdnUrl_def
        playSong_def playSong_begin_def playSong_resume_def resolveUrl_def usable_def
        createAudioElement_def initAudioContext_def render_def Let_def)
  have src: "hasSource desktop ?a" by (simp add: hasSource_def desktop_def)
  from playSong_same_song_toggles [of ?st ?a desktop songB songB cdnUrl True, OF st(1) src st(2),
      THEN conjunct1]
    st(3) calls
  show ?thesis by simp
qed

lemma playSong_awaits:
  assumes "audio st = Some a"
    and "forceQuality \<noteq> None \<or> \<not> hasSource env a
           \<or> (\<forall>c. currentSongRef st = Some c \<longrightarrow> id' c \<noteq> id' sg)"
  shows "playSong_begin env st sg forceQuality =
           AwaitingUrl
             (st\<lparr>isLoading := True,
                 retryCount := (if forceQuality = None then 0 else retryCount st),
                 currentSong := Some sg,
                 queue := (if List.find (\<lambda>s. id' s = id' sg) (queue st) \<noteq> None
                           then queue st else queue st @ [sg])\<rparr>)
             (case currentSongRef st of None \<Rightarrow> False | Some c \<Rightarrow> id' c = id' sg)
             (case forceQuality of None \<Rightarrow> False | Some q \<Rightarrow> q \<noteq> audioQualityRef st)"
proof (cases forceQuality)
  case (Some q)
  with assms(1) show ?thesis by (simp add: playSong_begin_def Let_def)
next
  case None
  with assms(2) have "\<not> hasSource env a \<or> (\<forall>c. currentSongRef st = Some c \<longrightarrow> id' c \<noteq> id' sg)"
    by simp
  then show ?thesis
  proof
    assume "\<not> hasSource env a"
    with None assms(1) show ?thesis by (simp add: playSong_begin_def Let_def)
  next
    assume "\<forall>c. currentSongRef st = Some c \<longrightarrow> id' c \<noteq> id' sg"
    then have "\<not> (case currentSongRef st of None \<Rightarrow> False | Some c \<Rightarrow> id' c = id' sg)"
      by (simp split: option.splits)
    with None assms(1) show ?thesis by (simp add: playSong_begin_def Let_def)
  qed
qed

lemma playSong_resume_no_url:
  "usable u = None \<Longrightarrow>
   playSong_resume env st sg same diff u =
     (if (\<exists>c. currentSongRef st = Some c \<and> id' c = id' sg)
      then st\<lparr>isLoading := False, isPlaying := False\<rparr> else st)"
  by (simp add: playSong_resume_def split: option.splits)

text \<open>
  C5, as amended. When a \<open>playSong\<close> call reaches the stream resolution and no source
  yields a usable URL, nothing starts playing: the audio element is left as it was and
  \<open>isPlaying\<close> is not turned on. The session is not left as it was: the requested song
  has become the current song, it has been appended to the queue unless an entry had its
  id, and a call without forced quality has reset the retry counter. When the
  current-song ref names the requested song by the time the resolution returns (React
  has re-rendered meanwhile, or the song was current already), \<open>isPlaying\<close> and
  \<open>isLoading\<close> end false; otherwise the call stops at its stale-call guard, with
  \<open>isLoading\<close> true and \<open>isPlaying\<close> as it was.
\<close>

theorem playSong_no_url:
  assumes "audio st = Some a"
    and "usable (fst (resolveUrl net sg)) = None"
    and "forceQuality \<noteq> None \<or> \<not> hasSource env a
           \<or> (\<forall>c. currentSongRef st = Some c \<longrightarrow> id' c \<noteq> id' sg)"
  shows "playSong env net True st sg forceQuality =
           ((render (st\<lparr>retryCount := (if forceQuality = None then 0 else retryCount st),
                currentSong := Some sg,
                queue := (if List.find (\<lambda>s. id' s = id' sg) (queue st) \<noteq> None
                          then queue st else queue st @ [sg])\<rparr>))
              \<lparr>isLoading := False, isPlaying := False\<rparr>,
            snd (resolveUrl net sg), [])
       \<and> playSong env net False st sg forceQuality =
           ((if \<exists>c. currentSongRef st = Some c \<and> id' c = id' sg
             then st\<lparr>isLoading := False, isPlaying := False,
                     retryCount := (if forceQuality = None then 0 else retryCount st),
                     currentSong := Some sg,
                     queue := (if List.find (\<lambda>s. id' s = id' sg) (queue st) \<noteq> None
                               then queue st else queue st @ [sg])\<rparr>
             else st\<lparr>isLoading := True,
                     retryCount := (if forceQuality = None then 0 else retryCount st),
                     currentSong := Some sg,
                     queue := (if List.find (\<lambda>s. id' s = id' sg) (queue st) \<noteq> None
                               then queue st else queue st @ [sg])\<rparr>),
            snd (resolveUrl net sg), [])
       \<and> audio (fst (playSong env net effectsRan st sg forceQuality)) = audio st
       \<and> (isPlaying (fst (playSong env net effectsRan st sg forceQuality)) \<longrightarrow> isPlaying st)"
proof -
  obtain u asked where r: "resolveUrl net sg = (u, asked)" by (cases "resolveUrl net sg")
  with assms(2) have u: "usable u = None" by simp
  note b = playSong_awaits [OF assms(1) assms(3)]
  have t: "playSong env net True st sg forceQuality =
           ((render (st\<lparr>retryCount := (if forceQuality = None then 0 else retryCount st),
                currentSong := Some sg,
                queue := (if List.find (\<lambda>s. id' s = id' sg) (queue st) \<noteq> None
                          then queue st else queue st @ [sg])\<rparr>))
              \<lparr>isLoading := False, isPlaying := False\<rparr>,
            snd (resolveUrl net sg), [])"
    by (simp add: playSong_def b r playSong_resume_no_url [OF u] render_def)
  have f: "playSong env net False st sg forceQuality =
           ((if \<exists>c. currentSongRef st = Some c \<and> id' c = id' sg
             then st\<lparr>isLoading := False, isPlaying := False,
                     retryCount := (if forceQuality = None then 0 else retryCount st),
                     currentSong := Some sg,
                     queue := (if List.find (\<lambda>s. id' s = id' sg) (queue st) \<noteq> None
                               then queue st else queue st @ [sg])\<rparr>
             else st\<lparr>isLoading := True,
                     retryCount := (if forceQuality = None then 0 else retryCount st),
                     currentSong := Some sg,
                     queue := (if List.find (\<lambda>s. id' s = id' sg) (queue st) \<noteq> None
                               then queue st else queue st @ [sg])\<rparr>),
            snd (resolveUrl net sg), [])"
    by (cases "\<exists>c. currentSongRef st = Some c \<and> id' c = id' sg")
       (auto simp: playSong_def b r playSong_resume_no_url [OF u])
  have a: "audio (fst (playSong env net effectsRan st sg forceQuality)) = audio st"
    by (cases effectsRan) (simp_all add: t f)
  have p: "isPlaying (fst (playSong env net effectsRan st sg forceQuality)) \<longrightarrow> isPlaying st"
    by (cases effectsRan) (simp_all add: t f)
  from t f a p show ?thesis by blast
qed

theorem playSong_no_url_witness:
  "playSong desktop noUrl True playingA songB None =
     (playingA\<lparr>isLoading := False, isPlaying := False,
               currentSong := Some songB, currentSongRef := Some songB,
               queue := [songA, songB], queueRef := [songA, songB]\<rparr>,
      [YoutubeGetAudioUrl ''B'', PipedGetAudioUrl ''B''], [])
   \<and> playSong desktop noUrl False playingA songB None =
     (playingA\<lparr>isLoading := True, currentSong := Some songB, queue := [songA, songB]\<rparr>,
      [YoutubeGetAudioUrl ''B'', PipedGetAudioUrl ''B''], [])"
proof -
  have a: "audio playingA
             = Some \<lparr>src = ''https://cdn/a'', currentTime = 0, paused = False, crossOrigin = True\<rparr>"
    by (simp add: playingA_def)
  have n: "usable (fst (resolveUrl noUrl songB)) = None"
    by (simp add: resolveUrl_def noUrl_def usable_def songB_def)
  have o: "None \<noteq> (None :: audio_quality option)
             \<or> \<not> hasSource desktop
                  \<lparr>src = ''https://cdn/a'', currentTime = 0, paused = False, crossOrigin = True\<rparr>
             \<or> (\<forall>c. currentSongRef playingA = Some c \<longrightarrow> id' c \<noteq> id' songB)"
    by (simp add: playingA_def songA_def songB_def)
  note t = playSong_no_url [OF a n o]
  show ?thesis
    apply (simp only: t [THEN conjunct1] t [THEN conjunct2, THEN conjunct1])
    apply (simp add: playingA_def songA_def songB_def noUrl_def resolveUrl_def usable_def
             render_def)
    done
qed

text \<open>
  C5 as stated fails: with song A playing from the queue [A], a \<open>playSong\<close> of B that
  finds no URL leaves B as the current song, the queue [A, B] and \<open>isPlaying\<close> false.
\<close>

theorem playSong_no_url_counterexample:
  "usable (fst (resolveUrl noUrl songB)) = None
   \<and> currentSong playingA = Some songA
   \<and> currentSong (fst (playSong desktop noUrl True playingA songB None)) = Some songB
   \<and> songB \<noteq> songA
   \<and> queue playingA = [songA]
   \<and> queue (fst (playSong desktop noUrl True playingA songB None)) = [songA, songB]
   \<and> isPlaying playingA
   \<and> \<not> isPlaying (fst (playSong desktop noUrl True playingA songB None))"
  by (simp add: playingA_def songA_def songB_def desktop_def noUrl_def
        playSong_def playSong_begin_def playSong_resume_def resolveUrl_def usable_def
        hasSource_def render_def Let_def)

subsection \<open>Track end\<close>

lemma findIndex_first:
  "i < length xs \<Longrightarrow> P (xs ! i) \<Longrightarrow> \<forall>j<i. \<not> P (xs ! j) \<Longrightarrow> findIndex P xs = int i"
proof (induction xs arbitrary: i)
  case Nil
  then show ?case by simp
next
  case (Cons x xs)
  show ?case
  proof (cases i)
    case 0
    with Cons.prems show ?thesis by simp
  next
    case (Suc n)
    with Cons.prems have "\<not> P x" by auto
    moreover have "findIndex P xs = int n"
      using Cons.prems Suc by (intro Cons.IH) auto
    ultimately show ?thesis using Suc by (simp add: Let_def)
  qed
qed

lemma shuffleIndex_avoids:
  assumes "shuffleIndex random len currentIndex k = Some n"
  shows "len > 1 \<longrightarrow> int n \<noteq> currentIndex"
  by (rule shuffleIndex.raw_induct
        [where P = "\<lambda>random len currentIndex k n. len > 1 \<longrightarrow> int n \<noteq> currentIndex",
         OF _ assms])
     (auto simp: Let_def split: if_splits)

lemma shuffleIndex_is_draw:
  assumes "shuffleIndex random len currentIndex k = Some n"
  shows "\<exists>d. n = randomIndex random len d"
  by (rule shuffleIndex.raw_induct
        [where P = "\<lambda>random len currentIndex k n. \<exists>d. n = randomIndex random len d",
         OF _ assms])
     (auto simp: Let_def split: if_splits)

lemma shuffleIndex_terminates:
  "int (randomIndex random len (k + d)) \<noteq> currentIndex \<Longrightarrow>
   shuffleIndex random len currentIndex k \<noteq> None"
proof (induction d arbitrary: k)
  case 0
  then show ?case by (subst shuffleIndex.simps) (simp add: Let_def)
next
  case (Suc d)
  then have "shuffleIndex random len currentIndex (Suc k) \<noteq> None" by simp
  then show ?case by (subst shuffleIndex.simps) (simp add: Let_def)
qed

lemma randomIndex_in_range:
  assumes "0 \<le> random k" "random k < 1" "0 < len"
  shows "randomIndex random len k < len"
proof -
  have "random k * real len < real len" using assms by simp
  then have "\<lfloor>random k * real len\<rfloor> < int len" by (simp add: floor_less_iff)
  then show ?thesis using assms unfolding randomIndex_def by linarith
qed

lemma invoke_in_range: "n < length q \<Longrightarrow> invoke q n = PlaySong (q ! n) None"
  by (simp add: invoke_def)

lemma next_index: "0 < n \<Longrightarrow> nat ((int i + 1) mod int n) = (i + 1) mod n"
proof -
  have "int ((i + 1) mod n) = int (i + 1) mod int n" by (rule zmod_int)
  also have "int (i + 1) = int i + 1" by simp
  finally have e: "(int i + 1) mod int n = int ((i + 1) mod n)" by (rule sym)
  show ?thesis unfolding e by (rule nat_int)
qed

lemma playNext_loop:
  assumes "queueRef st \<noteq> []" "playModeRef st = Loop"
  shows "playNext random False st =
     Some (st\<lparr>audio := map_option (\<lambda>a. a\<lparr>currentTime := 0, paused := False\<rparr>) (audio st)\<rparr>, [])"
proof (cases "audio st")
  case None
  then have "st\<lparr>audio := None\<rparr> = st" by simp
  with None assms show ?thesis by (simp add: playNext_def)
next
  case (Some a)
  with assms show ?thesis by (simp add: playNext_def)
qed

lemma playNext_sequence:
  assumes "queueRef st \<noteq> []" "playModeRef st = Sequence" "currentSongRef st = Some c"
    and "findIndex (\<lambda>s. id' s = id' c) (queueRef st) = int i"
  shows "playNext random force st =
           Some (st, [invoke (queueRef st) ((i + 1) mod length (queueRef st))])"
  using assms by (simp add: playNext_def next_index Let_def)

lemma playNext_shuffle:
  assumes "queueRef st \<noteq> []" "playModeRef st = Shuffle" "currentSongRef st = Some c"
    and "findIndex (\<lambda>s. id' s = id' c) (queueRef st) = int i"
  shows "playNext random force st =
        (case shuffleIndex random (length (queueRef st)) (int i) 0 of
           None \<Rightarrow> None | Some n \<Rightarrow> Some (st, [invoke (queueRef st) n]))"
  using assms by (simp add: playNext_def Let_def)

lemma resume_audio_present:
  "audio st \<noteq> None \<Longrightarrow>
   audio (initAudioContext env (if \<not> audioCtxConnected st then createAudioElement True st else st))
     \<noteq> None"
  by (simp add: initAudioContext_def createAudioElement_def Let_def)

lemma playSong_resume_plays:
  assumes "currentSongRef st = Some c" "id' c = id' sg" "usable u = Some url" "audio st \<noteq> None"
  shows "isPlaying (playSong_resume env st sg same diff u)
       \<and> (\<exists>a. audio (playSong_resume env st sg same diff u) = Some a \<and> src a = url \<and> \<not> paused a)"
proof -
  from assms(4) obtain a0 where a0: "audio st = Some a0" by auto
  from resume_audio_present [OF assms(4), of env] obtain a where
    a: "audio (initAudioContext env
          (if \<not> audioCtxConnected st then createAudioElement True st else st)) = Some a"
    by auto
  show ?thesis
    using assms(1,2,3) a0 a by (simp add: playSong_resume_def Let_def)
qed

lemma playSong_next_song:
  assumes "audio st \<noteq> None" "currentSongRef st = Some c" "id' sg \<noteq> id' c"
  shows "\<exists>st'. playSong env net effectsRan st sg None = (st', snd (resolveUrl net sg), [])
           \<and> currentSong st' = Some sg
           \<and> (\<forall>url. effectsRan \<and> usable (fst (resolveUrl net sg)) = Some url \<longrightarrow>
                 isPlaying st' \<and> (\<exists>a. audio st' = Some a \<and> src a = url \<and> \<not> paused a))"
proof -
  from assms(1) obtain a where a: "audio st = Some a" by auto
  obtain u asked where r: "resolveUrl net sg = (u, asked)" by (cases "resolveUrl net sg")
  let ?st1 = "st\<lparr>isLoading := True, retryCount := 0, currentSong := Some sg,
                  queue := (if List.find (\<lambda>s. id' s = id' sg) (queue st) \<noteq> None
                            then queue st else queue st @ [sg])\<rparr>"
  have b: "playSong_begin env st sg None = AwaitingUrl ?st1 False False"
    using playSong_awaits [of st a None env sg] a assms(2,3) by auto
  let ?st' = "playSong_resume env (if effectsRan then render ?st1 else ?st1) sg False False u"
  have run: "playSong env net effectsRan st sg None = (?st', snd (resolveUrl net sg), [])"
    by (simp add: playSong_def b r)
  have cur: "currentSong ?st' = Some sg"
    by (simp add: playSong_resume_keeps)
  have plays: "isPlaying ?st' \<and> (\<exists>a. audio ?st' = Some a \<and> src a = url \<and> \<not> paused a)"
    if "effectsRan \<and> usable (fst (resolveUrl net sg)) = Some url" for url
  proof -
    from that r have e: "effectsRan" and u: "usable u = Some url" by auto
    have "currentSongRef (render ?st1) = Some sg" by simp
    moreover have "audio (render ?st1) \<noteq> None" using a by simp
    ultimately show ?thesis
      using playSong_resume_plays [of "render ?st1" sg sg u url env False False] u e by simp
  qed
  from run cur plays show ?thesis by blast
qed

text \<open>
  C3, as amended. Let the current song sit at index \<open>i\<close> of the queue (the first entry
  with its id), as the refs have them. At the natural end of the track: in sequence mode
  the engine calls \<open>playSong\<close> on the entry at \<open>(i + 1) mod length\<close>, and when that entry
  is not the current song and the audio element exists, the call makes it the current
  song, asks the clients for its stream and, once a URL is resolved and the refs are up
  to date, has the element playing that URL; in shuffle mode with more than one entry,
  whenever the draw loop returns, the entry it calls \<open>playSong\<close> on is at an index other
  than \<open>i\<close> (and inside the queue, for draws in \<open>[0, 1)\<close>), and the loop does return as
  soon as one draw differs from \<open>i\<close>; in loop mode the element's position is set to 0
  and it plays on, with no call of \<open>playSong\<close>, hence no stream resolution.
\<close>

theorem trackEnded_modes:
  assumes c: "currentSongRef st = Some c"
    and i: "i < length (queueRef st)" "id' (queueRef st ! i) = id' c"
           "\<forall>j<i. id' (queueRef st ! j) \<noteq> id' c"
  shows "(playModeRef st = Sequence \<longrightarrow>
            onEnded random st =
              Some (st, [PlaySong (queueRef st ! ((i + 1) mod length (queueRef st))) None])
          \<and> (id' (queueRef st ! ((i + 1) mod length (queueRef st))) \<noteq> id' c
                \<and> audio st \<noteq> None \<longrightarrow>
               (\<exists>st'. trackEnded env net random effectsRan st =
                        Some (st',
                              snd (resolveUrl net
                                     (queueRef st ! ((i + 1) mod length (queueRef st)))),
                              [])
                    \<and> currentSong st' = Some (queueRef st ! ((i + 1) mod length (queueRef st)))
                    \<and> (\<forall>url. effectsRan
                            \<and> usable (fst (resolveUrl net
                                  (queueRef st ! ((i + 1) mod length (queueRef st))))) = Some url
                          \<longrightarrow> isPlaying st'
                              \<and> (\<exists>a. audio st' = Some a \<and> src a = url \<and> \<not> paused a)))))
       \<and> (playModeRef st = Shuffle \<and> length (queueRef st) > 1 \<longrightarrow>
            (\<forall>st' calls. onEnded random st = Some (st', calls) \<longrightarrow>
               st' = st \<and> (\<exists>n. n \<noteq> i \<and> calls = [invoke (queueRef st) n]
                  \<and> ((\<forall>k. 0 \<le> random k \<and> random k < 1) \<longrightarrow>
                        n < length (queueRef st) \<and> calls = [PlaySong (queueRef st ! n) None])))
            \<and> ((\<exists>k. randomIndex random (length (queueRef st)) k \<noteq> i) \<longrightarrow>
                  onEnded random st \<noteq> None))
       \<and> (playModeRef st = Loop \<longrightarrow>
            onEnded random st =
              Some (st\<lparr>audio := map_option (\<lambda>a. a\<lparr>currentTime := 0, paused := False\<rparr>) (audio st)\<rparr>,
                    [])
          \<and> trackEnded env net random effectsRan st =
              Some (st\<lparr>audio := map_option (\<lambda>a. a\<lparr>currentTime := 0, paused := False\<rparr>) (audio st)\<rparr>,
                    [], []))"
proof -
  let ?q = "queueRef st"
  let ?next = "?q ! ((i + 1) mod length ?q)"
  have ne: "?q \<noteq> []" using i(1) by auto
  have idx: "findIndex (\<lambda>s. id' s = id' c) ?q = int i"
    using i by (intro findIndex_first) auto
  have seq: "onEnded random st = Some (st, [PlaySong ?next None])"
    if m: "playModeRef st = Sequence"
  proof -
    have "(i + 1) mod length ?q < length ?q" using ne by simp
    then show ?thesis
      unfolding onEnded_def playNext_sequence [OF ne m c idx] by (simp only: invoke_in_range)
  qed
  have seq_plays: "\<exists>st'. trackEnded env net random effectsRan st =
                        Some (st', snd (resolveUrl net ?next), [])
                    \<and> currentSong st' = Some ?next
                    \<and> (\<forall>url. effectsRan \<and> usable (fst (resolveUrl net ?next)) = Some url
                          \<longrightarrow> isPlaying st'
                              \<and> (\<exists>a. audio st' = Some a \<and> src a = url \<and> \<not> paused a))"
    if m: "playModeRef st = Sequence" and d: "id' ?next \<noteq> id' c \<and> audio st \<noteq> None"
  proof -
    from playSong_next_song [of st c ?next env net effectsRan] c d
    obtain st' where st': "playSong env net effectsRan st ?next None
                             = (st', snd (resolveUrl net ?next), [])"
        "currentSong st' = Some ?next"
        "\<forall>url. effectsRan \<and> usable (fst (resolveUrl net ?next)) = Some url
              \<longrightarrow> isPlaying st' \<and> (\<exists>a. audio st' = Some a \<and> src a = url \<and> \<not> paused a)"
      by blast
    have "trackEnded env net random effectsRan st = Some (st', snd (resolveUrl net ?next), [])"
      unfolding trackEnded_def seq [OF m]
      by (simp only: option.case prod.case runCalls.simps st'(1) append_Nil2)
    with st'(2,3) show ?thesis by blast
  qed
  have loop: "onEnded random st =
              Some (st\<lparr>audio := map_option (\<lambda>a. a\<lparr>currentTime := 0, paused := False\<rparr>) (audio st)\<rparr>,
                    [])"
    if m: "playModeRef st = Loop"
    unfolding onEnded_def by (rule playNext_loop [OF ne m])
  have loop_run: "trackEnded env net random effectsRan st =
              Some (st\<lparr>audio := map_option (\<lambda>a. a\<lparr>currentTime := 0, paused := False\<rparr>) (audio st)\<rparr>,
                    [], [])"
    if m: "playModeRef st = Loop"
    by (simp add: trackEnded_def loop [OF m])
  have shuffle: "(\<forall>st' calls. onEnded random st = Some (st', calls) \<longrightarrow>
               st' = st \<and> (\<exists>n. n \<noteq> i \<and> calls = [invoke ?q n]
                  \<and> ((\<forall>k. 0 \<le> random k \<and> random k < 1) \<longrightarrow>
                        n < length ?q \<and> calls = [PlaySong (?q ! n) None])))
            \<and> ((\<exists>k. randomIndex random (length ?q) k \<noteq> i) \<longrightarrow>
                  onEnded random st \<noteq> None)"
    if m: "playModeRef st = Shuffle \<and> length ?q > 1"
  proof (intro conjI allI impI)
    have run: "onEnded random st =
        (case shuffleIndex random (length ?q) (int i) 0 of
           None \<Rightarrow> None | Some n \<Rightarrow> Some (st, [invoke ?q n]))"
      unfolding onEnded_def using m by (intro playNext_shuffle [OF ne _ c idx]) simp
    {
      fix st' calls assume r: "onEnded random st = Some (st', calls)"
      then obtain n where n: "shuffleIndex random (length ?q) (int i) 0 = Some n"
          and res: "st' = st" "calls = [invoke ?q n]"
        unfolding run by (cases "shuffleIndex random (length ?q) (int i) 0") auto
      show "st' = st" by (rule res(1))
      have neq: "n \<noteq> i" using shuffleIndex_avoids [OF n] m by simp
      from shuffleIndex_is_draw [OF n] obtain d
        where d: "n = randomIndex random (length ?q) d" by blast
      have rng: "n < length ?q" if "\<forall>k. 0 \<le> random k \<and> random k < 1"
        unfolding d using that ne by (intro randomIndex_in_range) auto
      show "\<exists>n. n \<noteq> i \<and> calls = [invoke ?q n]
                  \<and> ((\<forall>k. 0 \<le> random k \<and> random k < 1) \<longrightarrow>
                        n < length ?q \<and> calls = [PlaySong (?q ! n) None])"
      proof (intro exI [of _ n] conjI impI)
        show "n \<noteq> i" by (rule neq)
        show "calls = [invoke ?q n]" by (rule res(2))
        assume a: "\<forall>k. 0 \<le> random k \<and> random k < 1"
        show "n < length ?q" by (rule rng [OF a])
        then show "calls = [PlaySong (?q ! n) None]"
          unfolding res(2) by (simp only: invoke_in_range)
      qed
    }
    {
      assume "\<exists>k. randomIndex random (length ?q) k \<noteq> i"
      then obtain k where "int (randomIndex random (length ?q) (0 + k)) \<noteq> int i" by auto
      then have "shuffleIndex random (length ?q) (int i) 0 \<noteq> None"
        by (rule shuffleIndex_terminates)
      then show "onEnded random st \<noteq> None" unfolding run by auto
    }
  qed
  from seq seq_plays loop loop_run shuffle show ?thesis by blast
qed

theorem trackEnded_modes_witness:
  "onEnded halfThenZero (playingB Sequence) = Some (playingB Sequence, [PlaySong songC None])
   \<and> trackEnded desktop cdnUrl halfThenZero True (playingB Sequence) =
       Some ((playingB Sequence)
               \<lparr>currentSong := Some songC, currentSongRef := Some songC,
                audio := Some \<lparr>src = ''https://cdn/C'', currentTime = 0, paused = False,
                               crossOrigin = True\<rparr>\<rparr>,
             [PipedGetAudioUrl ''C''], [])
   \<and> onEnded halfThenZero (playingB Shuffle) = Some (playingB Shuffle, [PlaySong songA None])
   \<and> trackEnded desktop cdnUrl halfThenZero True (playingB Loop) =
       Some ((playingB Loop)\<lparr>audio := Some \<lparr>src = ''https://cdn/b'', currentTime = 0,
                                             paused = False, crossOrigin = True\<rparr>\<rparr>, [], [])"
proof -
  have c: "currentSongRef (playingB m) = Some songB" for m by (simp add: playingB_def)
  have q: "queueRef (playingB m) = [songA, songB, songC]" for m by (simp add: playingB_def)
  have i: "1 < length (queueRef (playingB m))" "id' (queueRef (playingB m) ! 1) = id' songB"
    "\<forall>j<1. id' (queueRef (playingB m) ! j) \<noteq> id' songB" for m
    by (simp_all add: q songA_def songB_def)
  note t = trackEnded_modes [OF c i, of _ halfThenZero desktop cdnUrl True]
  have m: "playModeRef (playingB m) = m" for m by (simp add: playingB_def)
  have len: "length (queueRef (playingB m)) = 3" for m by (simp add: q)
  have nx: "queueRef (playingB m) ! ((1 + 1) mod length (queueRef (playingB m))) = songC" for m
    by (simp add: q)
  note ts = t [of Sequence, THEN conjunct1, rule_format, OF m]
  have s1: "onEnded halfThenZero (playingB Sequence) = Some (playingB Sequence, [PlaySong songC None])"
    using ts [THEN conjunct1] unfolding nx .
  have d: "id' (queueRef (playingB Sequence) ! ((1 + 1) mod length (queueRef (playingB Sequence))))
             \<noteq> id' songB \<and> audio (playingB Sequence) \<noteq> None"
    unfolding nx by (simp add: songB_def songC_def playingB_def)
  from ts [THEN conjunct2, rule_format, OF d]
  obtain st' where st': "trackEnded desktop cdnUrl halfThenZero True (playingB Sequence)
                           = Some (st', snd (resolveUrl cdnUrl songC), [])"
    unfolding nx by blast
  have v1: "trackEnded desktop cdnUrl halfThenZero True (playingB Sequence) =
       Some ((playingB Sequence)
               \<lparr>currentSong := Some songC, currentSongRef := Some songC,
                audio := Some \<lparr>src = ''https://cdn/C'', currentTime = 0, paused = False,
                               crossOrigin = True\<rparr>\<rparr>,
             [PipedGetAudioUrl ''C''], [])"
    unfolding trackEnded_def s1
    by (simp add: playingB_def songA_def songB_def songC_def desktop_def cdnUrl_def
          playSong_def playSong_begin_def playSong_resume_def resolveUrl_def usable_def
          createAudioElement_def initAudioContext_def render_def Let_def)
  have d0: "randomIndex halfThenZero 3 0 = 1" and d1: "randomIndex halfThenZero 3 (Suc 0) = 0"
    by (simp_all add: randomIndex_def halfThenZero_def)
  have idx: "findIndex (\<lambda>s. id' s = id' songB) (queueRef (playingB Shuffle)) = int 1"
    using i [of Shuffle] by (intro findIndex_first) auto
  have ne: "queueRef (playingB Shuffle) \<noteq> []" by (simp add: q)
  have si: "shuffleIndex halfThenZero 3 (int 1) 0 = Some 0"
    apply (subst shuffleIndex.simps)
    apply (simp add: d0)
    apply (subst shuffleIndex.simps)
    apply (simp add: d1)
    done
  have s2: "onEnded halfThenZero (playingB Shuffle)
             = Some (playingB Shuffle, [PlaySong songA None])"
    unfolding onEnded_def playNext_shuffle [OF ne m c idx] len si
    by (simp add: invoke_def q)
  have s4: "trackEnded desktop cdnUrl halfThenZero True (playingB Loop) =
       Some ((playingB Loop)\<lparr>audio := Some \<lparr>src = ''https://cdn/b'', currentTime = 0,
                                             paused = False, crossOrigin = True\<rparr>\<rparr>, [], [])"
    using t [of Loop, THEN conjunct2, THEN conjunct2, rule_format, OF m, THEN conjunct2]
    by (simp add: playingB_def)
  from s1 v1 st' s2 s4 show ?thesis by blast
qed

text \<open>
  C3 as stated fails for a queue of one entry. In sequence mode the entry at
  \<open>(0 + 1) mod 1\<close> is the current song itself, its source is loaded, and the \<open>playSong\<close>
  call made at the end of the track takes the toggle branch: with \<open>isPlaying\<close> still true
  it pauses the element and asks no client. The song is not played.
\<close>

theorem trackEnded_single_entry_counterexample:
  "queueRef playingA = [songA] \<and> currentSongRef playingA = Some songA
   \<and> playModeRef playingA = Sequence
   \<and> trackEnded desktop cdnUrl halfThenZero True playingA =
       Some (playingA\<lparr>audio := Some \<lparr>src = ''https://cdn/a'', currentTime = 0, paused = True,
                                     crossOrigin = True\<rparr>,
                      isPlaying := False\<rparr>, [], [])"
  by (simp add: trackEnded_def onEnded_def playNext_def invoke_def playingA_def songA_def
        desktop_def playSong_def playSong_begin_def togglePlay_def hasSource_def Let_def)

end
